(* ===== verification/Prelude.thy ===== *)
theory Prelude
  imports Main "HOL-Library.Word" "HOL-Library.Monad_Syntax"
begin

text \<open>
  Shared vocabulary of the development: the machine types of the C sources, the
  result type of code that may not return normally, the collections of facts that
  the component theories feed to the simplifier, and generic lemmas on words,
  lists and results.
\<close>

unbundle bit_operations_syntax

subsection \<open>Machine types\<close>

type_synonym u8 = "8 word"
type_synonym u32 = "32 word"
type_synonym u64 = "64 word"

text \<open>A pointer is a 64-bit address; the null pointer is address 0.\<close>

type_synonym addr = u64

abbreviation NULL :: addr where
  "NULL \<equiv> 0"

text \<open>The range of the C type \<open>int\<close>, which the sources use for counters and limits.\<close>

definition int32_range :: "int \<Rightarrow> bool" where
  "int32_range i \<longleftrightarrow> - (2 ^ 31) \<le> i \<and> i < 2 ^ 31"

subsection \<open>Results of C code\<close>

text \<open>
  A call either returns a value or ends in one of the faults below: it blocks for
  ever on a mutex, dereferences an address that is not mapped, ends the process,
  reads a variable that was never written, converts a floating-point value that the
  target type cannot hold, overflows a signed integer, or is handed a buffer whose layout is not the one its
  request number announces.
\<close>

datatype fault =
    Deadlock
  | BadAccess
  | ProcessExit int
  | UninitRead
  | FloatCast
  | IntOverflow
  | BadLayout

type_synonym 'a res = "fault + 'a"

definition bindR :: "'a res \<Rightarrow> ('a \<Rightarrow> 'b res) \<Rightarrow> 'b res" where
  "bindR r f = (case r of Inl e \<Rightarrow> Inl e | Inr x \<Rightarrow> f x)"

definition deref :: "'a option \<Rightarrow> 'a res" where
  "deref r = (case r of None \<Rightarrow> Inl BadAccess | Some x \<Rightarrow> Inr x)"

text \<open>The value of a signed expression, which must be in the range of \<open>int\<close>.\<close>

definition ck :: "int \<Rightarrow> int res" where
  "ck i = (if int32_range i then Inr i else Inl IntOverflow)"

named_theorems res_simps \<open>evaluation of results\<close>
named_theorems heap_simps \<open>reads of updated heaps\<close>
named_theorems op_defs \<open>definitions of the operations of a component\<close>

lemma bindR_simps [simp, res_simps]:
  "bindR (Inr x) f = f x"
  "bindR (Inl e) f = Inl e"
  by (simp_all add: bindR_def)

lemma bindR_eq_Inr [res_simps]:
  "bindR r f = Inr y \<longleftrightarrow> (\<exists>x. r = Inr x \<and> f x = Inr y)"
  by (cases r) (auto simp: bindR_def)

lemma bindR_eq_Inl:
  "bindR r f = Inl e \<longleftrightarrow> r = Inl e \<or> (\<exists>x. r = Inr x \<and> f x = Inl e)"
  by (cases r) (auto simp: bindR_def)

lemma bindR_assoc: "bindR (bindR r f) g = bindR r (\<lambda>x. bindR (f x) g)"
  by (cases r) simp_all

lemma deref_simps [simp, res_simps]:
  "deref (Some x) = Inr x"
  "deref None = Inl BadAccess"
  by (simp_all add: deref_def)

lemma deref_eq_Inr [simp]: "deref r = Inr x \<longleftrightarrow> r = Some x"
  by (cases r) simp_all

lemma ck_ok [simp]: "int32_range i \<Longrightarrow> ck i = Inr i"
  by (simp add: ck_def)

lemma ck_eq_Inr [simp]: "ck i = Inr j \<longleftrightarrow> int32_range i \<and> i = j"
  by (auto simp: ck_def)

text \<open>Partial correctness of a result, with one rule for each construct.\<close>

definition okR :: "('a \<Rightarrow> bool) \<Rightarrow> 'a res \<Rightarrow> bool" where
  "okR P r \<longleftrightarrow> (\<forall>y. r = Inr y \<longrightarrow> P y)"

named_theorems okR_rules \<open>decomposition of partial-correctness goals\<close>

lemma okR_Inr [okR_rules]: "P y \<Longrightarrow> okR P (Inr y)"
  by (simp add: okR_def)

lemma okR_Inl [okR_rules]: "okR P (Inl e)"
  by (simp add: okR_def)

lemma okR_bind [okR_rules]: "(\<And>x. r = Inr x \<Longrightarrow> okR P (f x)) \<Longrightarrow> okR P (bindR r f)"
  by (auto simp: okR_def bindR_eq_Inr)

lemma okR_if [okR_rules]: "(b \<Longrightarrow> okR P r) \<Longrightarrow> (\<not> b \<Longrightarrow> okR P s) \<Longrightarrow> okR P (if b then r else s)"
  by simp

subsection \<open>Option values\<close>

lemma bind_Some_conv: "Option.bind r f = Some y \<longleftrightarrow> (\<exists>x. r = Some x \<and> f x = Some y)"
  by (cases r) simp_all

subsection \<open>Words\<close>

lemma unat_mask_split:
  fixes x m :: "'a::len word"
  shows "unat (x AND m) + unat (x AND NOT m) = unat x"
proof -
  have "(x AND m) AND (x AND NOT m) = 0"
    by (simp add: bit_eq_iff bit_simps)
  moreover have "(x AND m) OR (x AND NOT m) = x"
    by (auto simp: bit_eq_iff bit_simps)
  ultimately have sum: "(x AND m) + (x AND NOT m) = x"
    by (simp add: disjunctive_add_eq_or)
  have "x AND m \<le> x" by (simp add: word_and_le2)
  then have "unat (x - (x AND m)) = unat x - unat (x AND m)"
    by (simp add: unat_sub)
  moreover have "x - (x AND m) = x AND NOT m"
    using sum by (simp add: algebra_simps)
  moreover have "unat (x AND m) \<le> unat x"
    using \<open>x AND m \<le> x\<close> by (simp add: word_le_nat_alt)
  ultimately show ?thesis by simp
qed

lemma unat_and_le: "unat ((x :: 'a::len word) AND m) \<le> unat m"
  using word_and_le1 [of x m] by (simp add: word_le_nat_alt)

text \<open>Clearing the bits of \<open>m\<close> takes at most \<open>m\<close> away.\<close>

lemma unat_and_not_ge: "unat x - unat m \<le> unat (x AND NOT (m :: 'a::len word))"
  using unat_mask_split [of x m] unat_and_le [of x m] by linarith

lemma unat_and_not_le: "unat (x AND NOT (m :: 'a::len word)) \<le> unat x"
  using unat_mask_split [of x m] by linarith

lemma unat_plus_no_wrap:
  fixes x y :: "'a::len word"
  assumes "unat x + unat y < 2 ^ LENGTH('a)"
  shows "unat (x + y) = unat x + unat y"
  using assms by (simp add: unat_word_ariths)

lemma unat_minus_no_wrap:
  fixes x y :: "'a::len word"
  assumes "unat y \<le> unat x"
  shows "unat (x - y) = unat x - unat y"
  using assms by (simp add: unat_sub word_le_nat_alt)

end
