(* ===== verification/Cstring.thy ===== *)
theory Cstring
  imports Prelude
begin

text \<open>
  The string functions of the C library that the sources call. A C string is the list of
  its characters without the terminating null character. Number parsing follows
  \<open>strtol\<close> and \<open>strtoul\<close> (white space, one sign, digits, saturation at the range of
  \<open>long\<close>); \<open>scan_limit\<close> is \<open>sscanf\<close> with the one format string of \<^verbatim>\<open>src/env.c\<close>; \<open>hex_of\<close>
  and \<open>dec_of\<close> print numbers as the conversions \<open>%x\<close> and \<open>%d\<close> do.
\<close>

subsection \<open>Characters\<close>

definition is_space :: "char \<Rightarrow> bool" where
  "is_space c \<longleftrightarrow> (let n = of_char c :: nat in n = 32 \<or> (9 \<le> n \<and> n \<le> 13))"

definition is_digit :: "char \<Rightarrow> bool" where
  "is_digit c \<longleftrightarrow> (let n = of_char c :: nat in 48 \<le> n \<and> n \<le> 57)"

definition digit_val :: "char \<Rightarrow> nat" where
  "digit_val c = of_char c - 48"

definition digit_char :: "nat \<Rightarrow> char" where
  "digit_char d = char_of (48 + d)"

definition hex_char :: "nat \<Rightarrow> char" where
  "hex_char d = (if d < 10 then char_of (48 + d) else char_of (87 + d))"

subsection \<open>Reading numbers\<close>

definition dec_value :: "string \<Rightarrow> nat" where
  "dec_value s = foldl (\<lambda>n c. 10 * n + digit_val c) 0 s"

text \<open>A decimal number in front of a string: its sign, its digits and the rest.\<close>

definition scan_number :: "string \<Rightarrow> bool \<times> string \<times> string" where
  "scan_number s =
     (let s = dropWhile is_space s;
          neg = (s \<noteq> [] \<and> hd s = CHR ''-'');
          s = (if s \<noteq> [] \<and> (hd s = CHR ''-'' \<or> hd s = CHR ''+'') then tl s else s)
      in (neg, takeWhile is_digit s, dropWhile is_digit s))"

definition strtol :: "string \<Rightarrow> int" where
  "strtol s = (case scan_number s of (neg, ds, _) \<Rightarrow>
     let v = int (dec_value ds); v = (if neg then - v else v)
     in max (- (2 ^ 63)) (min (2 ^ 63 - 1) v))"

definition strtoul :: "string \<Rightarrow> u64" where
  "strtoul s = (case scan_number s of (neg, ds, _) \<Rightarrow>
     let v = int (dec_value ds)
     in if 2 ^ 64 \<le> v then - 1 else if neg then - word_of_int v else word_of_int v)"

text \<open>Conversion to the C type \<open>int\<close>, which keeps the low 32 bits.\<close>

definition to_int :: "int \<Rightarrow> int" where
  "to_int i = signed_take_bit 31 i"

definition atoi :: "string \<Rightarrow> int" where
  "atoi s = to_int (strtol s)"

text \<open>
  \<open>sscanf(str, "%u=%15s", &minor, data)\<close>: the number of conversions done, and what they
  stored.
\<close>

definition scan_limit :: "string \<Rightarrow> nat \<times> u32 option \<times> string option" where
  "scan_limit s =
     (case scan_number s of (neg, ds, rest) \<Rightarrow>
        if ds = [] then (0, None, None)
        else let v = ucast (strtoul s) :: u32 in
          (case rest of
             [] \<Rightarrow> (1, Some v, None)
           | c # rest \<Rightarrow>
               if c \<noteq> CHR ''='' then (1, Some v, None)
               else let w = takeWhile (\<lambda>c. \<not> is_space c) (dropWhile is_space rest) in
                 if w = [] then (1, Some v, None) else (2, Some v, Some (take 15 w))))"

subsection \<open>Printing numbers\<close>

fun digits_base :: "nat \<Rightarrow> nat \<Rightarrow> nat list" where
  "digits_base b n = (if b < 2 \<or> n < b then [n] else digits_base b (n div b) @ [n mod b])"

declare digits_base.simps [simp del]

definition dec_of :: "nat \<Rightarrow> string" where
  "dec_of n = map digit_char (digits_base 10 n)"

definition dec_of_int :: "int \<Rightarrow> string" where
  "dec_of_int i = (if i < 0 then CHR ''-'' # dec_of (nat (- i)) else dec_of (nat i))"

definition hex_of :: "nat \<Rightarrow> string" where
  "hex_of n = map hex_char (digits_base 16 n)"

subsection \<open>Searching\<close>

text \<open>The string from the first occurrence of a character on (\<open>strchr\<close>).\<close>

definition strchr :: "string \<Rightarrow> char \<Rightarrow> string option" where
  "strchr s c = (case dropWhile (\<lambda>d. d \<noteq> c) s of [] \<Rightarrow> None | r \<Rightarrow> Some r)"

text \<open>Whether a string occurs in another (\<open>strstr\<close>).\<close>

fun occurs_in :: "string \<Rightarrow> string \<Rightarrow> bool" where
  "occurs_in pat [] \<longleftrightarrow> pat = []"
| "occurs_in pat (c # s) \<longleftrightarrow> take (length pat) (c # s) = pat \<or> occurs_in pat s"

text \<open>The part of a path behind its last slash (GNU \<open>basename\<close>).\<close>

definition basename :: "string \<Rightarrow> string" where
  "basename s = rev (takeWhile (\<lambda>c. c \<noteq> CHR ''/'') (rev s))"

subsection \<open>Facts about digits\<close>

lemma digit_char_props [simp]:
  assumes "d < 10"
  shows "is_digit (digit_char d)" "digit_val (digit_char d) = d" "\<not> is_space (digit_char d)"
    "digit_char d \<noteq> CHR ''-''" "digit_char d \<noteq> CHR ''+''" "digit_char d \<noteq> CHR ''=''"
  using assms
  by (auto simp: is_digit_def digit_val_def digit_char_def is_space_def Let_def
      dest: arg_cong [of "char_of _" _ "of_char :: char \<Rightarrow> nat"])

lemma digits_base_less: "2 \<le> b \<Longrightarrow> d \<in> set (digits_base b n) \<Longrightarrow> d < b"
proof (induction b n rule: digits_base.induct)
  case (1 b n)
  show ?case
  proof (cases "n < b")
    case True
    with "1.prems" show ?thesis by (simp add: digits_base.simps [of b n])
  next
    case False
    with 1 show ?thesis by (auto simp: digits_base.simps [of b n])
  qed
qed

lemma digits_base_nonempty [simp]: "digits_base b n \<noteq> []"
  by (subst digits_base.simps) simp

lemma digits_base_value:
  assumes "2 \<le> b"
  shows "foldl (\<lambda>m d. b * m + d) 0 (digits_base b n) = n"
  using assms
proof (induction b n rule: digits_base.induct)
  case (1 b n)
  show ?case
  proof (cases "n < b")
    case True
    with "1.prems" show ?thesis by (simp add: digits_base.simps [of b n])
  next
    case False
    with 1 have "foldl (\<lambda>m d. b * m + d) 0 (digits_base b (n div b)) = n div b" by simp
    with False "1.prems" show ?thesis by (simp add: digits_base.simps [of b n])
  qed
qed

lemma digits_base_inj: "2 \<le> b \<Longrightarrow> digits_base b m = digits_base b n \<Longrightarrow> m = n"
  by (metis digits_base_value)

text \<open>What \<open>dec_of\<close> prints, \<open>dec_value\<close> reads.\<close>

lemma dec_of_digits: "c \<in> set (dec_of n) \<Longrightarrow> is_digit c \<and> \<not> is_space c \<and> c \<noteq> CHR ''-'' \<and> c \<noteq> CHR ''+''"
  using digits_base_less [of 10 _ n] by (auto simp: dec_of_def)

lemma dec_of_nonempty [simp]: "dec_of n \<noteq> []"
  by (simp add: dec_of_def)

lemma dec_value_dec_of [simp]: "dec_value (dec_of n) = n"
proof -
  have "foldl (\<lambda>m c. 10 * m + digit_val c) z (map digit_char ds) = foldl (\<lambda>m d. 10 * m + d) z ds"
    if "\<forall>d \<in> set ds. d < 10" for ds z
    using that by (induction ds arbitrary: z) auto
  moreover have "\<forall>d \<in> set (digits_base 10 n). d < 10"
    using digits_base_less [of 10 _ n] by auto
  ultimately show ?thesis
    using digits_base_value [of 10 n] by (simp add: dec_value_def dec_of_def)
qed

lemma scan_number_dec_of:
  assumes "rest = [] \<or> \<not> is_digit (hd rest)"
  shows "scan_number (dec_of n @ rest) = (False, dec_of n, rest)"
proof -
  obtain c s where cs: "dec_of n = c # s" by (cases "dec_of n") auto
  have c: "\<not> is_space c" "c \<noteq> CHR ''-''" "c \<noteq> CHR ''+''"
    using dec_of_digits [of c n] cs by auto
  have all: "\<forall>x \<in> set (dec_of n). is_digit x" using dec_of_digits by blast
  have "takeWhile is_digit (dec_of n @ rest) = dec_of n" "dropWhile is_digit (dec_of n @ rest) = rest"
    using all assms by (cases rest; simp)+
  then show ?thesis using cs c by (simp add: scan_number_def Let_def)
qed

lemma hex_char_inj: "d < 16 \<Longrightarrow> e < 16 \<Longrightarrow> hex_char d = hex_char e \<Longrightarrow> d = e"
  by (auto simp: hex_char_def split: if_splits dest: arg_cong [of "char_of _" _ "of_char :: char \<Rightarrow> nat"])

lemma hex_of_inj: "hex_of m = hex_of n \<Longrightarrow> m = n"
proof -
  assume eq: "hex_of m = hex_of n"
  have "inj_on hex_char {..<16}" by (auto simp: inj_on_def intro: hex_char_inj)
  then have "digits_base 16 m = digits_base 16 n"
    using eq digits_base_less [of 16 _ m] digits_base_less [of 16 _ n]
    by (auto simp: hex_of_def intro!: map_inj_on [of hex_char] intro: inj_on_subset)
  then show ?thesis by (rule digits_base_inj [rotated]) simp
qed

lemma hex_char_not_dot: "d < 16 \<Longrightarrow> hex_char d \<noteq> CHR ''.''"
  by (auto simp: hex_char_def dest: arg_cong [of "char_of _" _ "of_char :: char \<Rightarrow> nat"])

lemma hex_of_no_dot: "CHR ''.'' \<notin> set (hex_of n)"
  using digits_base_less [of 16 _ n] hex_char_not_dot by (force simp: hex_of_def)

text \<open>A number below a power of the base has no more digits than the exponent says.\<close>

lemma digits_base_length:
  assumes "2 \<le> b" "n < b ^ k" "0 < k"
  shows "length (digits_base b n) \<le> k"
  using assms
proof (induction k arbitrary: n)
  case (Suc k)
  show ?case
  proof (cases "n < b")
    case True
    then show ?thesis by (simp add: digits_base.simps [of b n])
  next
    case False
    then have "0 < k" using Suc.prems by (cases k) auto
    moreover have "n div b < b ^ k" using Suc.prems by (simp add: less_mult_imp_div_less mult.commute)
    ultimately show ?thesis using Suc.IH [of "n div b"] False Suc.prems by (simp add: digits_base.simps [of b n])
  qed
qed simp

lemma dec_of_length: "n < 10 ^ k \<Longrightarrow> 0 < k \<Longrightarrow> length (dec_of n) \<le> k"
  using digits_base_length [of 10 n k] by (simp add: dec_of_def)

end
