(* ===== verification/Logger.thy ===== *)
theory Logger
  imports Cstring
begin

text \<open>
  The macro \<open>LOGGER\<close> of \<^verbatim>\<open>include/hook.h\<close>: which messages are printed, and that a fatal one ends
  the process. The other theories leave messages out, since printing changes no state they
  speak about, and give the exit of a fatal message directly.
\<close>

datatype log_level_enum_t = INFO | ERROR | WARN | FATAL | VERBOSE | DETAIL

fun level_val :: "log_level_enum_t \<Rightarrow> int" where
  "level_val INFO = 0"
| "level_val ERROR = 1"
| "level_val WARN = 2"
| "level_val FATAL = 3"
| "level_val VERBOSE = 4"
| "level_val DETAIL = 5"

lemma level_val_inj: "level_val x = level_val y \<Longrightarrow> x = y"
  by (cases x; cases y) simp_all

text \<open>The levels are ordered as their values are.\<close>

instantiation log_level_enum_t :: linorder
begin

definition less_eq_log_level_enum_t :: "log_level_enum_t \<Rightarrow> log_level_enum_t \<Rightarrow> bool" where
  "less_eq_log_level_enum_t x y \<longleftrightarrow> level_val x \<le> level_val y"

definition less_log_level_enum_t :: "log_level_enum_t \<Rightarrow> log_level_enum_t \<Rightarrow> bool" where
  "less_log_level_enum_t x y \<longleftrightarrow> level_val x < level_val y"

instance
  by standard (auto simp: less_eq_log_level_enum_t_def less_log_level_enum_t_def intro: level_val_inj)

end

text \<open>\<open>env\<close> is the value of \<open>LOGGER_LEVEL\<close>; the result is whether the message was printed.\<close>

definition print_level :: "string option \<Rightarrow> int" where
  "print_level env =
     (case env of
        None \<Rightarrow> 3
      | Some s \<Rightarrow> let l = to_int (uint (strtoul s)) in if l < 0 then 3 else l)"

definition LOGGER :: "string option \<Rightarrow> log_level_enum_t \<Rightarrow> bool \<times> unit res" where
  "LOGGER env lv = (level_val lv \<le> print_level env, if lv = FATAL then Inl (ProcessExit (- 1)) else Inr ())"

lemma strtoul_printed: "n < 2 ^ 64 \<Longrightarrow> strtoul (dec_of n) = word_of_nat n"
  using scan_number_dec_of [of "[]" n] by (simp add: strtoul_def Let_def)

lemma print_level_printed:
  assumes "n < 2 ^ 31"
  shows "print_level (Some (dec_of n)) = int n"
  using assms strtoul_printed [of n]
  by (simp add: print_level_def to_int_def signed_take_bit_int_eq_self unsigned_of_nat take_bit_nat_eq_self Let_def)

text \<open>With \<open>LOGGER_LEVEL\<close> set to the number of a level exactly the messages up to that
  level are printed, without it those up to \<open>FATAL\<close>; a fatal message, and no other, ends the
  process, also when it is not printed.\<close>

lemma logger_levels:
  "fst (LOGGER (Some (dec_of (nat (level_val lv)))) l) = (l \<le> lv) \<and> fst (LOGGER None l) = (l \<le> FATAL) \<and>
   (snd (LOGGER env l) = (if l = FATAL then Inl (ProcessExit (- 1)) else Inr ()))"
proof -
  have "0 \<le> level_val lv" "nat (level_val lv) < 2 ^ 31" by (cases lv; simp)+
  then have "print_level (Some (dec_of (nat (level_val lv)))) = level_val lv" using print_level_printed by simp
  then show ?thesis by (simp add: LOGGER_def print_level_def less_eq_log_level_enum_t_def)
qed

end
