(* ===== verification/Clist_Ring.thy ===== *)
theory Clist_Ring
  imports Clist
begin

text \<open>
  The derived operations of \<^verbatim>\<open>include/list.h\<close> on rings: tests, moves, rotation,
  replacement, cutting and splicing, and the loop macros as folds over the member
  sequence.
\<close>

subsection \<open>Tests\<close>

lemma list_empty_dlist:
  assumes "dlist h head xs"
  shows "list_empty h head = Some (xs = [])"
  using dlist_next(4) [OF assms] assms
  by (cases xs) (auto simp: list_empty_def dlist_def)

lemma list_empty_careful_dlist:
  assumes "dlist h head xs"
  shows "list_empty_careful h head = Some (xs = [])"
  using dlist_next(4) [OF assms] dlist_prev(3) [OF assms] assms
  by (cases xs) (auto simp: list_empty_careful_def dlist_def)

lemma list_is_singular_dlist:
  assumes "dlist h head xs"
  shows "list_is_singular h head = Some (length xs = 1)"
proof (cases xs)
  case Nil
  with list_empty_dlist [OF assms] show ?thesis by (simp add: list_is_singular_def)
next
  case (Cons x ys)
  then show ?thesis
    using list_empty_dlist [OF assms] dlist_next(4) [OF assms] dlist_prev(3) [OF assms] assms
    by (cases ys rule: rev_cases) (auto simp: list_is_singular_def dlist_def)
qed

lemma list_is_last_dlist:
  assumes "dlist h head (xs @ e # ys)"
  shows "list_is_last h e head = Some (ys = [])"
proof -
  have "seg h e ys head" and "head \<notin> set ys" using assms by (auto simp: dlist_def)
  then have "get_next h e = Some (hd (ys @ [head]))"
    using seg_first [of h e ys head] seg_dom [of h e ys head] by (simp add: heap_simps)
  with \<open>head \<notin> set ys\<close> show ?thesis by (cases ys) (auto simp: list_is_last_def)
qed

subsection \<open>Moves\<close>

lemma list_del_init_dlist:
  assumes ring: "dlist h head (xs @ e # ys)"
  obtains h' where "list_del_init h e = Some h'" "dlist h' head (xs @ ys)" "dlist h' e []"
    "framed (cells head (xs @ e # ys)) h h'"
proof -
  obtain h1 where h1: "list_del_entry h e = Some h1" "dlist h1 head (xs @ ys)"
    "framed (cells head (xs @ ys)) h h1"
    using list_del_entry_dlist [OF ring] by metis
  have e: "e \<in> dom h1" "e \<notin> cells head (xs @ ys)"
    using ring dlist_dom [OF ring] framed_dom [OF h1(3)] by (auto simp: dlist_def cells_def)
  obtain h2 where h2: "INIT_LIST_HEAD h1 e = Some h2" "dlist h2 e []" "framed {e} h1 h2"
    using INIT_LIST_HEAD_dlist [OF e(1)] by metis
  have "dlist h2 head (xs @ ys)" using dlist_framed [OF h1(2) h2(3)] e(2) by simp
  moreover have "framed (cells head (xs @ e # ys)) h h2"
    using framed_trans [OF h1(3) h2(3)] by (rule framed_mono) (auto simp: cells_def)
  ultimately show thesis using h1(1) h2 by (intro that) (simp_all add: list_del_init_def)
qed

text \<open>Moving a member of one ring to the front, or to the back, of another.\<close>

lemma list_move_dlist:
  assumes ring: "dlist h head (xs @ e # ys)" and target: "dlist h head' zs"
    and dis: "cells head (xs @ e # ys) \<inter> cells head' zs = {}"
  obtains h' where "list_move h e head' = Some h'" "dlist h' head (xs @ ys)" "dlist h' head' (e # zs)"
proof -
  obtain h1 where h1: "list_del_entry h e = Some h1" "dlist h1 head (xs @ ys)"
    "framed (cells head (xs @ ys)) h h1"
    using list_del_entry_dlist [OF ring] by metis
  have e: "e \<in> dom h1" "e \<notin> cells head' zs" "e \<notin> cells head (xs @ ys)"
    using ring dlist_dom [OF ring] framed_dom [OF h1(3)] dis by (auto simp: dlist_def cells_def)
  have "dlist h1 head' zs"
    using dlist_framed [OF target h1(3)] dis by (auto simp: cells_def)
  then obtain h2 where h2: "list_add h1 e head' = Some h2" "dlist h2 head' (e # zs)"
    "framed (cells head' (e # zs)) h1 h2"
    using list_add_dlist e by metis
  have "dlist h2 head (xs @ ys)"
    using dlist_framed [OF h1(2) h2(3)] dis e by (auto simp: cells_def)
  then show thesis using h1(1) h2(1,2) by (intro that) (simp_all add: list_move_def)
qed

lemma list_move_same_dlist:
  assumes ring: "dlist h head (xs @ e # ys)"
  obtains h' where "list_move h e head = Some h'" "dlist h' head (e # xs @ ys)"
proof -
  obtain h1 where h1: "list_del_entry h e = Some h1" "dlist h1 head (xs @ ys)"
    "framed (cells head (xs @ ys)) h h1"
    using list_del_entry_dlist [OF ring] by metis
  have "e \<in> dom h1" "e \<notin> cells head (xs @ ys)"
    using ring dlist_dom [OF ring] framed_dom [OF h1(3)] by (auto simp: dlist_def cells_def)
  then obtain h2 where "list_add h1 e head = Some h2" "dlist h2 head (e # xs @ ys)"
    using list_add_dlist [OF h1(2)] by metis
  then show thesis using h1(1) by (intro that) (simp_all add: list_move_def)
qed

lemma list_move_tail_same_dlist:
  assumes ring: "dlist h head (xs @ e # ys)"
  obtains h' where "list_move_tail h e head = Some h'" "dlist h' head (xs @ ys @ [e])"
    "framed (cells head (xs @ e # ys)) h h'"
proof -
  obtain h1 where h1: "list_del_entry h e = Some h1" "dlist h1 head (xs @ ys)"
    "framed (cells head (xs @ ys)) h h1"
    using list_del_entry_dlist [OF ring] by metis
  have "e \<in> dom h1" "e \<notin> cells head (xs @ ys)"
    using ring dlist_dom [OF ring] framed_dom [OF h1(3)] by (auto simp: dlist_def cells_def)
  then obtain h2 where h2: "list_add_tail h1 e head = Some h2" "dlist h2 head ((xs @ ys) @ [e])"
    "framed (cells head (e # xs @ ys)) h1 h2"
    using list_add_tail_dlist [OF h1(2)] by metis
  moreover have "framed (cells head (xs @ e # ys)) h h2"
    using framed_trans [OF h1(3) h2(3)] by (rule framed_mono) (auto simp: cells_def)
  ultimately show thesis using h1(1) by (intro that) (simp_all add: list_move_tail_def)
qed

lemma list_rotate_left_dlist:
  assumes ring: "dlist h head xs"
  obtains h' where "list_rotate_left h head = Some h'" "dlist h' head (rotate1 xs)"
proof (cases xs)
  case Nil
  then show thesis using list_empty_dlist [OF ring] ring that by (simp add: list_rotate_left_def)
next
  case (Cons x ys)
  then obtain h' where "list_move_tail h x head = Some h'" "dlist h' head ([] @ ys @ [x])"
    using list_move_tail_same_dlist [of h head "[]" x ys] ring by auto
  then show thesis
    using list_empty_dlist [OF ring] dlist_next(4) [OF ring] Cons that
    by (simp add: list_rotate_left_def)
qed

subsection \<open>Splicing\<close>

text \<open>
  The members of a non-empty ring are threaded between two neighbours \<open>p\<close> and \<open>n\<close>
  of another ring.
\<close>

lemma list_splice_between_seg:
  assumes ring: "dlist h list xs" and ne: "xs \<noteq> []" and link: "linked h p n"
    and out: "p \<notin> cells list xs" "n \<notin> cells list xs"
  obtains h' where "list_splice_between h list p n = Some h'" "seg h' p xs n" "dom h' = dom h"
    "\<And>a. a \<noteq> p \<Longrightarrow> a \<noteq> last xs \<Longrightarrow> nx h' a = nx h a"
    "\<And>a. a \<noteq> n \<Longrightarrow> a \<noteq> hd xs \<Longrightarrow> pv h' a = pv h a"
    "\<And>a. a \<notin> {p, n} \<union> set xs \<Longrightarrow> h' a = h a"
proof -
  define f l where "f = hd xs" and "l = last xs"
  have gets: "get_next h list = Some f" "get_prev h list = Some l"
    using dlist_next(4) [OF ring] dlist_prev(3) [OF ring] ne by (simp_all add: f_def l_def)
  have fl: "f \<in> set xs" "l \<in> set xs" using ne by (simp_all add: f_def l_def)
  have doms: "f \<in> dom h" "l \<in> dom h" "p \<in> dom h" "n \<in> dom h"
    using dlist_dom [OF ring] fl link by (auto simp: cells_def linked_def)
  define h1 where "h1 = upd_next (upd_prev h f p) p f"
  define h2 where "h2 = upd_prev (upd_next h1 l n) n l"
  have d1: "dom h1 = dom h" and d2: "dom h2 = dom h1" using doms by (auto simp: h1_def h2_def heap_simps)
  have r1: "nx h1 a = (if a = p then f else nx h a)" "pv h1 a = (if a = f then p else pv h a)" for a
    by (simp_all add: h1_def heap_simps)
  have r2: "nx h2 a = (if a = l then n else nx h1 a)" "pv h2 a = (if a = n then l else pv h1 a)" for a
    by (simp_all add: h2_def heap_simps)
  have s: "seg h list xs list" and dis: "distinct (list # xs)" "p \<notin> set xs" "n \<notin> set xs" "p \<noteq> list"
    using ring out by (auto simp: dlist_def cells_def)
  have "hd (xs @ [list]) = f" using ne by (simp add: f_def)
  then have s1: "seg h1 p xs list"
    using s dis doms d1
    by (intro seg_retarget_start [OF s d1]) (auto simp: r1 linked_def)
  have l: "last (p # xs) = l" using ne by (simp add: l_def)
  have s2: "seg h2 p xs n"
  proof (rule seg_retarget_end [OF s1 d2])
    show "linked h2 (last (p # xs)) n"
      unfolding l using doms d1 d2 by (simp add: r2 linked_def)
    show "pv h2 b = pv h1 b" if "b \<in> set xs" for b using that dis by (auto simp: r2)
  qed (use dis l in \<open>auto simp: r2\<close>)
  have "list_splice_between h list p n = Some h2"
    using gets doms by (simp add: list_splice_between_def heap_simps h2_def h1_def)
  moreover have "nx h2 a = nx h a" if "a \<noteq> p" "a \<noteq> last xs" for a
    using that by (simp add: r1 r2 l_def)
  moreover have "pv h2 a = pv h a" if "a \<noteq> n" "a \<noteq> hd xs" for a
    using that by (simp add: r1 r2 f_def)
  moreover have "h2 a = h a" if "a \<notin> {p, n} \<union> set xs" for a
  proof -
    have "a \<noteq> p" "a \<noteq> n" "a \<noteq> l" "a \<noteq> f" using that fl by auto
    then show ?thesis by (simp add: h2_def h1_def heap_simps)
  qed
  moreover have "dom h2 = dom h" using d1 d2 by simp
  ultimately show thesis using s2 by (intro that)
qed

lemma list_splice_between_front:
  assumes ring: "dlist h list xs" and ne: "xs \<noteq> []" and host: "dlist h head ys"
    and dis: "cells list xs \<inter> cells head ys = {}"
  obtains h' where "list_splice_between h list head (hd (ys @ [head])) = Some h'"
    "dlist h' head (xs @ ys)" "list \<in> dom h'"
proof -
  define n where "n = hd (ys @ [head])"
  note n = dlist_next [OF host, folded n_def]
  have out: "head \<notin> cells list xs" "n \<notin> cells list xs" using dis n(2) by (auto simp: cells_def)
  obtain h' where h': "list_splice_between h list head n = Some h'" "seg h' head xs n" "dom h' = dom h"
    "\<And>a. a \<noteq> head \<Longrightarrow> a \<noteq> last xs \<Longrightarrow> nx h' a = nx h a"
    "\<And>a. a \<noteq> n \<Longrightarrow> a \<noteq> hd xs \<Longrightarrow> pv h' a = pv h a"
    using list_splice_between_seg [OF ring ne n(1) out] by metis
  have "seg h' head (xs @ ys) head"
  proof (cases ys)
    case Nil
    with h'(2) show ?thesis by (simp add: n_def)
  next
    case (Cons y zs)
    have "seg h' y zs head"
    proof (rule seg_cong)
      show "seg h y zs head" using host Cons by (simp add: dlist_def)
      show "nx h' a = nx h a" if "a \<in> insert y (set zs)" for a
        using that host dis Cons last_in_set [OF ne] by (intro h'(4)) (auto simp: dlist_def cells_def)
      show "pv h' a = pv h a" if "a \<in> insert head (set zs)" for a
        using that host dis Cons hd_in_set [OF ne] by (intro h'(5)) (auto simp: n_def dlist_def cells_def)
    qed (rule h'(3))
    with h'(2) Cons show ?thesis by (simp add: n_def)
  qed
  then have "dlist h' head (xs @ ys)"
    using ring host dis by (auto simp: dlist_def cells_def)
  then show thesis using h' dlist_dom [OF ring] by (intro that) (auto simp: n_def cells_def)
qed

lemma list_splice_between_back:
  assumes ring: "dlist h list xs" and ne: "xs \<noteq> []" and host: "dlist h head ys"
    and dis: "cells list xs \<inter> cells head ys = {}"
  obtains h' where "list_splice_between h list (last (head # ys)) head = Some h'"
    "dlist h' head (ys @ xs)" "list \<in> dom h'"
proof -
  define p where "p = last (head # ys)"
  note p = dlist_prev [OF host, folded p_def]
  have out: "p \<notin> cells list xs" "head \<notin> cells list xs" using dis p(2) by (auto simp: cells_def)
  obtain h' where h': "list_splice_between h list p head = Some h'" "seg h' p xs head" "dom h' = dom h"
    "\<And>a. a \<noteq> p \<Longrightarrow> a \<noteq> last xs \<Longrightarrow> nx h' a = nx h a"
    "\<And>a. a \<noteq> head \<Longrightarrow> a \<noteq> hd xs \<Longrightarrow> pv h' a = pv h a"
    using list_splice_between_seg [OF ring ne p(1) out] by metis
  have "seg h' head (ys @ xs) head"
  proof (cases ys rule: rev_cases)
    case Nil
    with h'(2) show ?thesis by (simp add: p_def)
  next
    case (snoc zs z)
    have "seg h' head zs z"
    proof (rule seg_cong)
      show "seg h head zs z" using host snoc by (simp add: dlist_def)
      show "nx h' a = nx h a" if "a \<in> insert head (set zs)" for a
        using that host dis snoc last_in_set [OF ne] by (intro h'(4)) (auto simp: p_def dlist_def cells_def)
      show "pv h' a = pv h a" if "a \<in> insert z (set zs)" for a
        using that host dis snoc hd_in_set [OF ne] by (intro h'(5)) (auto simp: dlist_def cells_def)
    qed (rule h'(3))
    with h'(2) snoc show ?thesis by (simp add: p_def)
  qed
  then have "dlist h' head (ys @ xs)"
    using ring host dis by (auto simp: dlist_def cells_def)
  then show thesis using h' dlist_dom [OF ring] by (intro that) (auto simp: p_def cells_def)
qed

lemma list_splice_dlist:
  assumes ring: "dlist h list xs" and host: "dlist h head ys"
    and dis: "cells list xs \<inter> cells head ys = {}"
  shows "\<exists>h'. list_splice h list head = Some h' \<and> dlist h' head (xs @ ys)"
proof (cases "xs = []")
  case True
  then show ?thesis using list_empty_dlist [OF ring] host by (simp add: list_splice_def)
next
  case False
  then show ?thesis
    using list_splice_between_front [OF ring False host dis] list_empty_dlist [OF ring]
      dlist_next(4) [OF host] by (auto simp: list_splice_def)
qed

lemma list_splice_tail_dlist:
  assumes ring: "dlist h list xs" and host: "dlist h head ys"
    and dis: "cells list xs \<inter> cells head ys = {}"
  shows "\<exists>h'. list_splice_tail h list head = Some h' \<and> dlist h' head (ys @ xs)"
proof (cases "xs = []")
  case True
  then show ?thesis using list_empty_dlist [OF ring] host by (simp add: list_splice_tail_def)
next
  case False
  obtain h' where "list_splice_between h list (last (head # ys)) head = Some h'" "dlist h' head (ys @ xs)"
    using list_splice_between_back [OF ring False host dis] by metis
  with False show ?thesis
    using list_empty_dlist [OF ring] dlist_prev(3) [OF host] by (simp add: list_splice_tail_def)
qed

lemma splice_then_init:
  assumes ring: "dlist h' head zs" and list: "list \<in> dom h'" "list \<notin> cells head zs"
  shows "\<exists>h''. INIT_LIST_HEAD h' list = Some h'' \<and> dlist h'' head zs \<and> dlist h'' list []"
proof -
  obtain h'' where h'': "INIT_LIST_HEAD h' list = Some h''" "dlist h'' list []" "framed {list} h' h''"
    using INIT_LIST_HEAD_dlist [OF list(1)] by metis
  moreover have "dlist h'' head zs" using dlist_framed [OF ring h''(3)] list(2) by simp
  ultimately show ?thesis by blast
qed

lemma list_splice_init_dlist:
  assumes ring: "dlist h list xs" and host: "dlist h head ys"
    and dis: "cells list xs \<inter> cells head ys = {}"
  shows "\<exists>h'. list_splice_init h list head = Some h' \<and> dlist h' head (xs @ ys) \<and> dlist h' list []"
proof (cases "xs = []")
  case True
  then show ?thesis using list_empty_dlist [OF ring] host ring by (simp add: list_splice_init_def)
next
  case False
  obtain h' where h': "list_splice_between h list head (hd (ys @ [head])) = Some h'"
    "dlist h' head (xs @ ys)" "list \<in> dom h'"
    using list_splice_between_front [OF ring False host dis] by metis
  have "list \<notin> cells head (xs @ ys)" using dis ring by (auto simp: cells_def dlist_def)
  with splice_then_init [OF h'(2,3)] show ?thesis
    using h'(1) False list_empty_dlist [OF ring] dlist_next(4) [OF host]
    by (simp add: list_splice_init_def)
qed

lemma list_splice_tail_init_dlist:
  assumes ring: "dlist h list xs" and host: "dlist h head ys"
    and dis: "cells list xs \<inter> cells head ys = {}"
  shows "\<exists>h'. list_splice_tail_init h list head = Some h' \<and> dlist h' head (ys @ xs) \<and> dlist h' list []"
proof (cases "xs = []")
  case True
  then show ?thesis using list_empty_dlist [OF ring] host ring by (simp add: list_splice_tail_init_def)
next
  case False
  obtain h' where h': "list_splice_between h list (last (head # ys)) head = Some h'"
    "dlist h' head (ys @ xs)" "list \<in> dom h'"
    using list_splice_between_back [OF ring False host dis] by metis
  have "list \<notin> cells head (ys @ xs)" using dis ring by (auto simp: cells_def dlist_def)
  with splice_then_init [OF h'(2,3)] show ?thesis
    using h'(1) False list_empty_dlist [OF ring] dlist_prev(3) [OF host]
    by (simp add: list_splice_tail_init_def)
qed

subsection \<open>Replacement\<close>

lemma list_replace_dlist:
  assumes ring: "dlist h head (xs @ old # ys)" and new: "new \<in> dom h" "new \<notin> cells head (xs @ old # ys)"
  obtains h' where "list_replace h old new = Some h'" "dlist h' head (xs @ new # ys)" "dom h' = dom h"
proof -
  define p n where "p = last (head # xs)" and "n = hd (ys @ [head])"
  have s1: "seg h head xs old" and s2: "seg h old ys head" and dis: "distinct (head # xs @ old # ys)"
    using ring by (auto simp: dlist_def)
  have old: "old \<in> dom h" "pv h old = p" "nx h old = n"
    using seg_dom [OF s1] seg_last [OF s1] seg_first [OF s2] by (auto simp: p_def n_def)
  have pn_in: "p \<in> cells head xs" "n \<in> cells head ys"
    by (cases xs rule: rev_cases; auto simp: cells_def p_def) (cases ys; auto simp: cells_def n_def)
  then have pn: "p \<in> dom h" "n \<in> dom h" "p \<noteq> new" "n \<noteq> new" "n \<noteq> old" "p \<noteq> old"
    using seg_dom [OF s1] seg_dom [OF s2] new dis by (auto simp: cells_def)
  define h' where "h' = upd_next (upd_prev (upd_prev (upd_next h new n) n new) new p) p new"
  have dom: "dom h' = dom h" using pn new by (auto simp: h'_def heap_simps)
  have rd: "nx h' b = (if b = p then new else if b = new then n else nx h b)"
    "pv h' b = (if b = new then p else if b = n then new else pv h b)" for b
    by (simp_all add: h'_def heap_simps)
  have out: "new \<noteq> head" "new \<notin> set xs" "new \<notin> set ys" using new by (auto simp: cells_def)
  have left: "seg h' head xs new"
  proof (rule seg_retarget_end [OF s1 dom, folded p_def])
    show "linked h' p new" using pn new dom rd by (simp add: linked_def)
    show "pv h' b = pv h b" if "b \<in> set xs" for b using that dis pn_in out unfolding rd cells_def by auto
  qed (use dis out rd in auto)
  have right: "seg h' new ys head"
  proof (rule seg_retarget_start [OF s2 dom, folded n_def])
    show "linked h' new n" using pn new dom rd by (simp add: linked_def)
    show "nx h' b = nx h b" if "b \<in> set ys" for b using that dis pn_in out unfolding rd cells_def by auto
  qed (use dis out rd in auto)
  have "dlist h' head (xs @ new # ys)"
    using left right dis out by (auto simp: dlist_def)
  moreover have "list_replace h old new = Some h'"
    using old pn new by (simp add: list_replace_def heap_simps h'_def)
  ultimately show thesis using dom by (intro that)
qed

lemma list_replace_init_dlist:
  assumes ring: "dlist h head (xs @ old # ys)" and new: "new \<in> dom h" "new \<notin> cells head (xs @ old # ys)"
  shows "\<exists>h'. list_replace_init h old new = Some h' \<and> dlist h' head (xs @ new # ys) \<and> dlist h' old []"
proof -
  obtain h' where h': "list_replace h old new = Some h'" "dlist h' head (xs @ new # ys)" "dom h' = dom h"
    using list_replace_dlist [OF ring new] by metis
  have "old \<in> dom h'" "old \<notin> cells head (xs @ new # ys)"
    using h'(3) dlist_dom [OF ring] ring new by (auto simp: dlist_def cells_def)
  from splice_then_init [OF h'(2) this] h'(1) show ?thesis
    by (simp add: list_replace_init_def)
qed

subsection \<open>Cutting\<close>

lemma list_cut_position_at_dlist:
  assumes ring: "dlist h head (xs @ e # ys)" and list: "list \<in> dom h" "list \<notin> cells head (xs @ e # ys)"
  obtains h' where "list_cut_position_at h list head e = Some h'" "dlist h' list (xs @ [e])" "dlist h' head ys"
proof -
  define f n where "f = hd (xs @ [e])" and "n = hd (ys @ [head])"
  have s1: "seg h head xs e" and s2: "seg h e ys head" and dis: "distinct (head # xs @ e # ys)"
    using ring by (auto simp: dlist_def)
  have out: "list \<noteq> head" "list \<notin> set xs" "list \<noteq> e" "list \<notin> set ys" using list by (auto simp: cells_def)
  have rds: "nx h head = f" "nx h e = n" "e \<in> dom h" "head \<in> dom h"
    using seg_first [OF s1] seg_first [OF s2] seg_dom [OF s1] by (auto simp: f_def n_def)
  have fn_in: "f \<in> insert e (set xs)" "n \<in> insert head (set ys)"
    by (cases xs; simp add: f_def) (cases ys; simp add: n_def)
  then have fn: "f \<in> dom h" "n \<in> dom h" "f \<noteq> head" "f \<noteq> list" "n \<noteq> list" "n \<noteq> f" "n \<noteq> e"
    using seg_dom [OF s1] seg_dom [OF s2] dis out by auto
  define h' where "h' = upd_prev (upd_next (upd_next (upd_prev (upd_prev (upd_next h list f) f list) list e)
    e list) head n) n head"
  have dom: "dom h' = dom h" using fn rds list by (auto simp: h'_def heap_simps)
  have rd: "nx h' b = (if b = head then n else if b = e then list else if b = list then f else nx h b)"
    "pv h' b = (if b = n then head else if b = list then e else if b = f then list else pv h b)" for b
    by (simp_all add: h'_def heap_simps)
  have "seg h' list xs e"
  proof (rule seg_retarget_start [OF s1 dom, folded f_def])
    show "linked h' list f" using fn list dom rd out rds by (simp add: linked_def)
    show "nx h' b = nx h b" if "b \<in> set xs" for b using that dis out unfolding rd by auto
    show "pv h' b = pv h b" if "b \<in> insert e (set xs)" "b \<noteq> f" for b
      using that dis out fn_in unfolding rd by auto
  qed (use dis in auto)
  moreover have "linked h' e list" using rds list dom rd out fn dis by (auto simp: linked_def)
  ultimately have "dlist h' list (xs @ [e])" using dis out by (auto simp: dlist_def)
  moreover have "seg h' head ys head"
  proof (rule seg_retarget_start [OF s2 dom, folded n_def])
    show "linked h' head n" using fn rds dom rd by (simp add: linked_def)
    show "nx h' b = nx h b" if "b \<in> set ys" for b using that dis out unfolding rd by auto
    show "pv h' b = pv h b" if "b \<in> insert head (set ys)" "b \<noteq> n" for b
      using that dis out fn_in unfolding rd by auto
  qed (use dis in auto)
  then have "dlist h' head ys" using dis by (auto simp: dlist_def)
  moreover have "list_cut_position_at h list head e = Some h'"
    using rds list fn out by (simp add: list_cut_position_at_def heap_simps h'_def)
  ultimately show thesis by (intro that)
qed

lemma list_cut_position_dlist:
  assumes ring: "dlist h head (xs @ e # ys)" and list: "list \<in> dom h" "list \<notin> cells head (xs @ e # ys)"
  shows "\<exists>h'. list_cut_position h list head e = Some h' \<and> dlist h' list (xs @ [e]) \<and> dlist h' head ys"
proof -
  obtain h' where "list_cut_position_at h list head e = Some h'" "dlist h' list (xs @ [e])" "dlist h' head ys"
    using list_cut_position_at_dlist [OF ring list] by metis
  moreover have "head \<noteq> e" using ring by (auto simp: dlist_def)
  moreover have "length (xs @ e # ys) = 1 \<Longrightarrow> hd ((xs @ e # ys) @ [head]) = e" by (cases xs) auto
  ultimately show ?thesis
    using list_empty_dlist [OF ring] list_is_singular_dlist [OF ring] dlist_next(4) [OF ring]
    by (auto simp: list_cut_position_def)
qed

end
