(* ===== verification/Clist_Loops.thy ===== *)
theory Clist_Loops
  imports Clist_Ring
begin

text \<open>
  The loop macros of \<^verbatim>\<open>include/list.h\<close>. On a ring, \<open>list_for_each\<close> with a body that
  leaves the links alone runs the body over the members in order, up to a \<open>break\<close>;
  \<open>list_for_each_prev\<close> runs it in the reverse order; \<open>list_for_each_safe\<close> may delete the
  member it is at, and the plain loop may not.
\<close>

subsection \<open>Running a body over a sequence\<close>

fun run_body :: "(addr \<Rightarrow> 's \<Rightarrow> ('s \<times> bool) option) \<Rightarrow> addr list \<Rightarrow> 's \<Rightarrow> 's option" where
  "run_body f [] s = Some s"
| "run_body f (x # xs) s = do {
     r \<leftarrow> f x s;
     if snd r then Some (fst r) else run_body f xs (fst r)
   }"

text \<open>A body that only reads the links.\<close>

definition reading :: "(addr \<Rightarrow> 's \<Rightarrow> ('s \<times> bool) option) \<Rightarrow> 's loop_body" where
  "reading f pos st = do {
     r \<leftarrow> f pos (snd st);
     Some ((fst st, fst r), snd r)
   }"

lemma reading_apply: "reading f pos (h, s) = do { r \<leftarrow> f pos s; Some ((h, fst r), snd r) }"
  by (simp add: reading_def)

lemma list_for_each_loop_seg:
  assumes "seg h p xs head" "head \<notin> set xs"
  shows "list_for_each_loop head (reading f) (hd (xs @ [head])) (h, s) =
    map_option (Pair h) (run_body f xs s)"
  using assms
proof (induction xs arbitrary: p s)
  case Nil
  then show ?case by (simp add: list_for_each_loop_simps)
next
  case (Cons x xs)
  then have x: "seg h x xs head" "head \<notin> set xs" "x \<noteq> head" by auto
  then have "get_next h x = Some (hd (xs @ [head]))"
    using seg_first [OF x(1)] seg_dom [OF x(1)] by (simp add: heap_simps)
  with Cons.IH [OF x(1,2)] x(3) show ?case
    by (subst list_for_each_loop_simps) (auto simp: reading_apply split: bind_splits)
qed

lemma list_for_each_dlist:
  assumes "dlist h head xs"
  shows "list_for_each head (reading f) (h, s) = map_option (Pair h) (run_body f xs s)"
  using list_for_each_loop_seg [of h head xs head f s] dlist_next(4) [OF assms] assms
  by (simp add: list_for_each_def dlist_def)

lemma list_for_each_prev_loop_seg:
  assumes "seg h head xs q" "head \<notin> set xs" "pos = last (head # xs)"
  shows "list_for_each_prev_loop head (reading f) pos (h, s) =
    map_option (Pair h) (run_body f (rev xs) s)"
  using assms
proof (induction xs arbitrary: q s pos rule: rev_induct)
  case Nil
  then show ?case by (simp add: list_for_each_prev_loop_simps)
next
  case (snoc x xs)
  then have x: "seg h head xs x" "head \<notin> set xs" "x \<noteq> head" "pos = x" by auto
  then have "get_prev h x = Some (last (head # xs))"
    using seg_last [OF x(1)] seg_dom [OF x(1)] by (simp add: heap_simps)
  with snoc.IH [OF x(1,2) refl] x(3,4) show ?case
    by (subst list_for_each_prev_loop_simps) (auto simp: reading_apply split: bind_splits)
qed

lemma list_for_each_prev_dlist:
  assumes "dlist h head xs"
  shows "list_for_each_prev head (reading f) (h, s) = map_option (Pair h) (run_body f (rev xs) s)"
  using list_for_each_prev_loop_seg [of h head xs head "last (head # xs)" f s]
    dlist_prev(3) [OF assms] assms
  by (simp add: list_for_each_prev_def dlist_def)

subsection \<open>Deleting while iterating\<close>

text \<open>The body that deletes the member it is at and records its address.\<close>

definition deleting :: "addr list loop_body" where
  "deleting pos st = do {
     h \<leftarrow> list_del (fst st) pos;
     Some ((h, snd st @ [pos]), False)
   }"

lemma deleting_apply: "deleting pos (h, vs) = do { h' \<leftarrow> list_del h pos; Some ((h', vs @ [pos]), False) }"
  by (simp add: deleting_def)

lemma list_for_each_safe_loop_deleting:
  assumes "dlist h head xs"
  shows "\<exists>h'. list_for_each_safe_loop head deleting (hd (xs @ [head]))
      (hd (tl (xs @ [head]) @ [nx h head])) (h, vs) = Some (h', vs @ xs) \<and> dlist h' head []"
  using assms
proof (induction xs arbitrary: h vs)
  case Nil
  then show ?case by (simp add: list_for_each_safe_loop_simps)
next
  case (Cons x xs)
  obtain h1 where h1: "list_del h x = Some h1" "dlist h1 head xs"
    using list_del_dlist [of h head "[]" x xs] Cons.prems by auto
  have x: "x \<noteq> head" using Cons.prems by (auto simp: dlist_def)
  have "get_next h1 (hd (xs @ [head])) = Some (hd (tl (xs @ [head]) @ [nx h1 head]))"
  proof (cases xs)
    case Nil
    then show ?thesis using dlist_next(3) [OF h1(2)] by (simp add: heap_simps)
  next
    case (Cons y ys)
    then have "seg h1 y ys head" using h1(2) by (simp add: dlist_def)
    then show ?thesis
      using seg_first [of h1 y ys head] seg_dom [of h1 y ys head] Cons
      by (cases ys) (simp_all add: heap_simps)
  qed
  with Cons.IH [OF h1(2), of "vs @ [x]"] h1(1) x show ?case
    by (subst list_for_each_safe_loop_simps) (cases xs; auto simp: deleting_apply)
qed

lemma list_for_each_safe_deleting:
  assumes ring: "dlist h head xs"
  shows "\<exists>h'. list_for_each_safe head deleting (h, []) = Some (h', xs) \<and> dlist h' head []"
proof -
  have "get_next h (hd (xs @ [head])) = Some (hd (tl (xs @ [head]) @ [nx h head]))"
  proof (cases xs)
    case Nil
    then show ?thesis using dlist_next(3) [OF ring] by (simp add: heap_simps)
  next
    case (Cons y ys)
    then have "seg h y ys head" using ring by (simp add: dlist_def)
    then show ?thesis
      using seg_first [of h y ys head] seg_dom [of h y ys head] Cons
      by (cases ys) (simp_all add: heap_simps)
  qed
  then show ?thesis
    using list_for_each_safe_loop_deleting [OF ring, of "[]"] dlist_next(4) [OF ring]
    by (simp add: list_for_each_safe_def)
qed

text \<open>
  The plain loop follows the poisoned link of the deleted member; where the poison
  address is not mapped, the next access is a fault.
\<close>

lemma list_for_each_deleting_faults:
  assumes ring: "dlist h head (x # xs)" and poison: "LIST_POISON1 \<notin> dom h"
  shows "list_for_each head deleting (h, []) = None"
proof -
  obtain h1 where h1: "list_del h x = Some h1" "framed (cells head (x # xs)) h h1"
    "h1 x = Some \<lparr>lnext = LIST_POISON1, lprev = LIST_POISON2\<rparr>"
    using list_del_dlist [of h head "[]" x xs] ring by auto
  have x: "x \<noteq> head" "get_next h head = Some x" "get_next h1 x = Some LIST_POISON1"
    using ring dlist_next(4) [OF ring] h1(3) by (auto simp: dlist_def get_next_def)
  have p: "LIST_POISON1 \<notin> dom h1" "LIST_POISON1 \<noteq> head"
    using poison framed_dom [OF h1(2)] dlist_next(3) [OF ring] by auto
  have "list_for_each_loop head deleting LIST_POISON1 (h1, [x]) = None"
    using p by (subst list_for_each_loop_simps) (simp add: deleting_apply list_del_def heap_simps)
  then show ?thesis
    using x h1(1)
    by (simp add: list_for_each_def list_for_each_loop_simps [of head deleting x] deleting_apply)
qed

subsection \<open>A ring in memory\<close>

text \<open>
  A heap with a ring of three members at head 16, a spare cell at 80 and a second ring
  of one member at head 96, for the examples below.
\<close>

definition demo_heap :: heap where
  "demo_heap = [16 \<mapsto> \<lparr>lnext = 32, lprev = 64\<rparr>, 32 \<mapsto> \<lparr>lnext = 48, lprev = 16\<rparr>,
     48 \<mapsto> \<lparr>lnext = 64, lprev = 32\<rparr>, 64 \<mapsto> \<lparr>lnext = 16, lprev = 48\<rparr>,
     80 \<mapsto> \<lparr>lnext = 0, lprev = 0\<rparr>, 96 \<mapsto> \<lparr>lnext = 112, lprev = 112\<rparr>, 112 \<mapsto> \<lparr>lnext = 96, lprev = 96\<rparr>]"

lemma demo_rings:
  "dlist demo_heap 16 ([32] @ 48 # [64])" "dlist demo_heap 96 [112]" "80 \<in> dom demo_heap"
  by (simp_all add: demo_heap_def dlist_def linked_def nx_def pv_def)

subsection \<open>Properties of the list library\<close>

text \<open>C11: Insertion and removal do on the ring in memory what they say on the sequence of its
  members: \<open>list_add\<close> puts a new cell in front, \<open>list_add_tail\<close> puts it at the end, \<open>list_del\<close>
  takes any member out and poisons its links, \<open>list_replace_init\<close> exchanges a member and leaves
  the old one as an empty ring. None of them faults, and insertion and \<open>list_del\<close> change no
  cell outside the ring.\<close>

theorem list_edit_correct:
  assumes ring: "dlist h head (xs @ e # ys)" and new: "new \<in> dom h" "new \<notin> cells head (xs @ e # ys)"
  shows "(\<exists>h'. list_add h new head = Some h' \<and> dlist h' head (new # xs @ e # ys) \<and>
      framed (cells head (new # xs @ e # ys)) h h') \<and>
    (\<exists>h'. list_add_tail h new head = Some h' \<and> dlist h' head (xs @ e # ys @ [new]) \<and>
      framed (cells head (new # xs @ e # ys)) h h') \<and>
    (\<exists>h'. list_del h e = Some h' \<and> dlist h' head (xs @ ys) \<and>
      h' e = Some \<lparr>lnext = LIST_POISON1, lprev = LIST_POISON2\<rparr> \<and> framed (cells head (xs @ e # ys)) h h') \<and>
    (\<exists>h'. list_replace_init h e new = Some h' \<and> dlist h' head (xs @ new # ys) \<and> dlist h' e [])"
proof (intro conjI)
  show "\<exists>h'. list_add h new head = Some h' \<and> dlist h' head (new # xs @ e # ys) \<and>
      framed (cells head (new # xs @ e # ys)) h h'"
    using list_add_dlist [OF ring new] by metis
  show "\<exists>h'. list_add_tail h new head = Some h' \<and> dlist h' head (xs @ e # ys @ [new]) \<and>
      framed (cells head (new # xs @ e # ys)) h h'"
    using list_add_tail_dlist [OF ring new] by (metis append.assoc append_Cons)
  show "\<exists>h'. list_del h e = Some h' \<and> dlist h' head (xs @ ys) \<and>
      h' e = Some \<lparr>lnext = LIST_POISON1, lprev = LIST_POISON2\<rparr> \<and> framed (cells head (xs @ e # ys)) h h'"
    using list_del_dlist [OF ring] by metis
qed (rule list_replace_init_dlist [OF ring new])

theorem list_edit_correct_witness:
  "\<exists>h'. list_del demo_heap 48 = Some h' \<and> dlist h' 16 [32, 64]"
  using list_edit_correct [OF demo_rings(1) demo_rings(3)] by (auto simp: cells_def)

text \<open>C13: Moving whole rings. The four splice operations insert one ring into another at the
  front or at the back (and leave the source ring empty where they say so), rotation moves
  the first member to the end, and moving a member within its ring puts it in front.\<close>

theorem list_regroup_correct:
  assumes ring: "dlist h list xs" and host: "dlist h head ys" and dis: "cells list xs \<inter> cells head ys = {}"
  shows "(\<exists>h'. list_splice h list head = Some h' \<and> dlist h' head (xs @ ys)) \<and>
    (\<exists>h'. list_splice_tail h list head = Some h' \<and> dlist h' head (ys @ xs)) \<and>
    (\<exists>h'. list_splice_init h list head = Some h' \<and> dlist h' head (xs @ ys) \<and> dlist h' list []) \<and>
    (\<exists>h'. list_splice_tail_init h list head = Some h' \<and> dlist h' head (ys @ xs) \<and> dlist h' list []) \<and>
    (\<exists>h'. list_rotate_left h head = Some h' \<and> dlist h' head (rotate1 ys)) \<and>
    (\<forall>us e vs. xs = us @ e # vs \<longrightarrow>
      (\<exists>h'. list_move h e list = Some h' \<and> dlist h' list (e # us @ vs)) \<and>
      (\<exists>h'. list_move h e head = Some h' \<and> dlist h' list (us @ vs) \<and> dlist h' head (e # ys)))"
proof (intro conjI allI impI)
  show "\<exists>h'. list_rotate_left h head = Some h' \<and> dlist h' head (rotate1 ys)"
    using list_rotate_left_dlist [OF host] by metis
next
  fix us e vs assume xs: "xs = us @ e # vs"
  show "\<exists>h'. list_move h e list = Some h' \<and> dlist h' list (e # us @ vs)"
    using list_move_same_dlist [OF ring [unfolded xs]] by metis
  show "\<exists>h'. list_move h e head = Some h' \<and> dlist h' list (us @ vs) \<and> dlist h' head (e # ys)"
    using list_move_dlist [OF ring [unfolded xs] host dis [unfolded xs]] by metis
qed (use list_splice_dlist [OF assms] list_splice_tail_dlist [OF assms] list_splice_init_dlist [OF assms]
      list_splice_tail_init_dlist [OF assms] in simp_all)

theorem list_regroup_correct_witness:
  "\<exists>h'. list_splice_tail_init demo_heap 96 16 = Some h' \<and> dlist h' 16 [32, 48, 64, 112] \<and> dlist h' 96 []"
  using list_regroup_correct [OF demo_rings(2) demo_rings(1)] by (simp add: cells_def)

text \<open>C14: Cutting a ring after a member and splicing the two parts together again gives back
  the ring: \<open>list_cut_position\<close> and \<open>list_splice_init\<close> are inverse, and the spare head is empty
  afterwards.\<close>

theorem list_cut_splice_roundtrip:
  assumes ring: "dlist h head (xs @ e # ys)" and list: "list \<in> dom h" "list \<notin> cells head (xs @ e # ys)"
  shows "\<exists>h' h''. list_cut_position h list head e = Some h' \<and> dlist h' list (xs @ [e]) \<and> dlist h' head ys \<and>
    list_splice_init h' list head = Some h'' \<and> dlist h'' head (xs @ e # ys) \<and> dlist h'' list []"
proof -
  obtain h' where h': "list_cut_position h list head e = Some h'" "dlist h' list (xs @ [e])" "dlist h' head ys"
    using list_cut_position_dlist [OF assms] by blast
  have "cells list (xs @ [e]) \<inter> cells head ys = {}"
    using ring list(2) by (auto simp: dlist_def cells_def)
  from list_splice_init_dlist [OF h'(2,3) this] h' show ?thesis by auto
qed

theorem list_cut_splice_roundtrip_witness:
  "\<exists>h' h''. list_cut_position demo_heap 80 16 48 = Some h' \<and> dlist h' 80 [32, 48] \<and> dlist h' 16 [64] \<and>
    list_splice_init h' 80 16 = Some h'' \<and> dlist h'' 16 [32, 48, 64] \<and> dlist h'' 80 []"
  using list_cut_splice_roundtrip [OF demo_rings(1) demo_rings(3)] by (simp add: cells_def)

text \<open>C12: The loops terminate on a ring and visit its members once each: \<open>list_for_each\<close> from
  the first to the last, \<open>list_for_each_prev\<close> from the last to the first, both up to a
  \<open>break\<close> of the body and with the ring unchanged.\<close>

theorem list_for_each_visits:
  assumes "dlist h head xs"
  shows "list_for_each head (reading f) (h, s) = map_option (Pair h) (run_body f xs s) \<and>
    list_for_each_prev head (reading f) (h, s) = map_option (Pair h) (run_body f (rev xs) s)"
  by (simp add: list_for_each_dlist [OF assms] list_for_each_prev_dlist [OF assms])

theorem list_for_each_visits_witness:
  "list_for_each_prev 16 (reading (\<lambda>pos vs. Some (vs @ [pos], pos = 48))) (demo_heap, []) =
     Some (demo_heap, [64, 48])"
  using list_for_each_visits [OF demo_rings(1), of "\<lambda>pos vs. Some (vs @ [pos], pos = 48)" "[]"] by simp

text \<open>C15: Deleting while iterating needs the safe loop: \<open>list_for_each_safe\<close> with a body that
  deletes the member it is at removes every member and leaves an empty ring, while the plain
  loop runs into the poisoned link of the first deleted member.\<close>

theorem list_delete_all:
  assumes ring: "dlist h head xs" and poison: "LIST_POISON1 \<notin> dom h"
  shows "(\<exists>h'. list_for_each_safe head deleting (h, []) = Some (h', xs) \<and> dlist h' head []) \<and>
    (list_for_each head deleting (h, []) = None \<longleftrightarrow> xs \<noteq> [])"
proof -
  have "list_for_each head deleting (h, []) = Some (h, [])" if "xs = []"
    using dlist_next(4) [OF ring] that
    by (simp add: list_for_each_def list_for_each_loop_simps)
  moreover have "list_for_each head deleting (h, []) = None" if "xs \<noteq> []"
    using list_for_each_deleting_faults [of h head "hd xs" "tl xs"] ring poison that by simp
  ultimately show ?thesis using list_for_each_safe_deleting [OF ring] by auto
qed

theorem list_delete_all_witness:
  "\<exists>h'. list_for_each_safe 16 deleting (demo_heap, []) = Some (h', [32, 48, 64]) \<and> dlist h' 16 []"
  using list_delete_all [OF demo_rings(1)] by (simp add: demo_heap_def LIST_POISON1_def)

end
