(* ===== verification/Clist_Entries.thy ===== *)
theory Clist_Entries
  imports Clist_Loops
begin

text \<open>
  The loop macros of \<^verbatim>\<open>include/list.h\<close> whose cursor is the object that contains the list cell,
  and \<open>list_for_each_prev_safe\<close>. \<open>off\<close> is the offset of the cell in the object, so
  \<open>&pos->member\<close> is \<open>pos + off\<close>. Each loop over objects is shown to be the loop over cells with
  its body shifted to the objects; the members a loop visits and the effect of deleting while
  iterating follow.
\<close>

subsection \<open>The macros\<close>

definition list_for_each_prev_safe_loop :: "addr \<Rightarrow> 's loop_body \<Rightarrow> addr \<Rightarrow> addr \<Rightarrow> heap \<times> 's \<Rightarrow> (heap \<times> 's) option" where
  "list_for_each_prev_safe_loop head body pos n =
     c_for (\<lambda>(pos, n). pos \<noteq> head) (\<lambda>h (pos, n). map_option (Pair n) (get_prev h n)) (\<lambda>(pos, n). body pos) (pos, n)"

definition list_for_each_prev_safe :: "addr \<Rightarrow> 's loop_body \<Rightarrow> heap \<times> 's \<Rightarrow> (heap \<times> 's) option" where
  "list_for_each_prev_safe head body st = do {
     pos \<leftarrow> get_prev (fst st) head;
     n \<leftarrow> get_prev (fst st) pos;
     list_for_each_prev_safe_loop head body pos n st
   }"

definition list_for_each_entry_from ::
  "addr \<Rightarrow> u64 \<Rightarrow> 's loop_body \<Rightarrow> addr \<Rightarrow> heap \<times> 's \<Rightarrow> (heap \<times> 's) option" where
  "list_for_each_entry_from head off body =
     c_for (\<lambda>pos. pos + off \<noteq> head) (\<lambda>h pos. list_next_entry h pos off) body"

definition list_for_each_entry :: "addr \<Rightarrow> u64 \<Rightarrow> 's loop_body \<Rightarrow> heap \<times> 's \<Rightarrow> (heap \<times> 's) option" where
  "list_for_each_entry head off body st = do {
     pos \<leftarrow> list_first_entry (fst st) head off;
     c_for (\<lambda>pos. pos + off \<noteq> head) (\<lambda>h pos. list_next_entry h pos off) body pos st
   }"

definition list_for_each_entry_reverse :: "addr \<Rightarrow> u64 \<Rightarrow> 's loop_body \<Rightarrow> heap \<times> 's \<Rightarrow> (heap \<times> 's) option" where
  "list_for_each_entry_reverse head off body st = do {
     pos \<leftarrow> list_last_entry (fst st) head off;
     c_for (\<lambda>pos. pos + off \<noteq> head) (\<lambda>h pos. list_prev_entry h pos off) body pos st
   }"

definition list_prepare_entry :: "addr \<Rightarrow> addr \<Rightarrow> u64 \<Rightarrow> addr" where
  "list_prepare_entry pos head off = (if pos \<noteq> NULL then pos else list_entry head off)"

definition list_for_each_entry_continue ::
  "addr \<Rightarrow> u64 \<Rightarrow> 's loop_body \<Rightarrow> addr \<Rightarrow> heap \<times> 's \<Rightarrow> (heap \<times> 's) option" where
  "list_for_each_entry_continue head off body pos st = do {
     pos \<leftarrow> list_next_entry (fst st) pos off;
     c_for (\<lambda>pos. pos + off \<noteq> head) (\<lambda>h pos. list_next_entry h pos off) body pos st
   }"

definition list_for_each_entry_continue_reverse ::
  "addr \<Rightarrow> u64 \<Rightarrow> 's loop_body \<Rightarrow> addr \<Rightarrow> heap \<times> 's \<Rightarrow> (heap \<times> 's) option" where
  "list_for_each_entry_continue_reverse head off body pos st = do {
     pos \<leftarrow> list_prev_entry (fst st) pos off;
     c_for (\<lambda>pos. pos + off \<noteq> head) (\<lambda>h pos. list_prev_entry h pos off) body pos st
   }"

text \<open>The loops that read the neighbour before the body runs; their cursor is the pair of \<open>pos\<close> and \<open>n\<close>.\<close>

definition list_for_each_entry_safe :: "addr \<Rightarrow> u64 \<Rightarrow> 's loop_body \<Rightarrow> heap \<times> 's \<Rightarrow> (heap \<times> 's) option" where
  "list_for_each_entry_safe head off body st = do {
     pos \<leftarrow> list_first_entry (fst st) head off;
     n \<leftarrow> list_next_entry (fst st) pos off;
     c_for (\<lambda>(pos, n). pos + off \<noteq> head) (\<lambda>h (pos, n). map_option (Pair n) (list_next_entry h n off)) (\<lambda>(pos, n). body pos) (pos, n) st
   }"

definition list_for_each_entry_safe_continue ::
  "addr \<Rightarrow> u64 \<Rightarrow> 's loop_body \<Rightarrow> addr \<Rightarrow> heap \<times> 's \<Rightarrow> (heap \<times> 's) option" where
  "list_for_each_entry_safe_continue head off body pos st = do {
     pos \<leftarrow> list_next_entry (fst st) pos off;
     n \<leftarrow> list_next_entry (fst st) pos off;
     c_for (\<lambda>(pos, n). pos + off \<noteq> head) (\<lambda>h (pos, n). map_option (Pair n) (list_next_entry h n off)) (\<lambda>(pos, n). body pos) (pos, n) st
   }"

definition list_for_each_entry_safe_from ::
  "addr \<Rightarrow> u64 \<Rightarrow> 's loop_body \<Rightarrow> addr \<Rightarrow> heap \<times> 's \<Rightarrow> (heap \<times> 's) option" where
  "list_for_each_entry_safe_from head off body pos st = do {
     n \<leftarrow> list_next_entry (fst st) pos off;
     c_for (\<lambda>(pos, n). pos + off \<noteq> head) (\<lambda>h (pos, n). map_option (Pair n) (list_next_entry h n off)) (\<lambda>(pos, n). body pos) (pos, n) st
   }"

definition list_for_each_entry_safe_reverse :: "addr \<Rightarrow> u64 \<Rightarrow> 's loop_body \<Rightarrow> heap \<times> 's \<Rightarrow> (heap \<times> 's) option" where
  "list_for_each_entry_safe_reverse head off body st = do {
     pos \<leftarrow> list_last_entry (fst st) head off;
     n \<leftarrow> list_prev_entry (fst st) pos off;
     c_for (\<lambda>(pos, n). pos + off \<noteq> head) (\<lambda>h (pos, n). map_option (Pair n) (list_prev_entry h n off)) (\<lambda>(pos, n). body pos) (pos, n) st
   }"

definition list_safe_reset_next :: "heap \<Rightarrow> addr \<Rightarrow> u64 \<Rightarrow> addr option" where
  "list_safe_reset_next h pos off = list_next_entry h pos off"

lemma list_for_each_prev_safe_loop_simps:
  "list_for_each_prev_safe_loop head body pos n st =
     (if pos = head then Some st
      else do { r \<leftarrow> body pos st;
        if snd r then Some (fst r) else do { n' \<leftarrow> get_prev (fst (fst r)) n; list_for_each_prev_safe_loop head body n n' (fst r) } })"
  unfolding list_for_each_prev_safe_loop_def
  by (subst c_for.simps) (simp add: map_conv_bind_option comp_def cong: if_cong)

subsection \<open>Loops that simulate each other\<close>

lemma option_eqI: "(\<And>y. r = Some y \<Longrightarrow> s = Some y) \<Longrightarrow> (\<And>y. s = Some y \<Longrightarrow> r = Some y) \<Longrightarrow> r = s"
  by (cases r; cases s) auto

text \<open>Two loops are equal when a map of their cursors commutes with condition, step and body.\<close>

lemma c_for_map:
  assumes cond: "\<And>c. cond' (f c) = cond c" and step: "\<And>h c. step' h (f c) = map_option f (step h c)"
    and body: "\<And>c. body' (f c) = body c"
  shows "c_for cond' step' body' (f c) st = c_for cond step body c st"
proof (rule option_eqI)
  fix y
  have "\<forall>c. d = f c \<longrightarrow> b = body' \<longrightarrow> s = step' \<longrightarrow> cc = cond' \<longrightarrow> c_for cond step body c st = Some y" if "c_for cc s b d st = Some y" for cc s b d
    using that
  proof (induction rule: c_for.raw_induct [rotated, consumes 1, case_names iter])
    case (iter g cc s b d st y)
    show ?case using iter(2)
      by (subst c_for.simps) (auto simp: cond step body split: bind_splits option.splits if_splits dest!: iter(1))
  qed
  then show "c_for cond step body c st = Some y" if "c_for cond' step' body' (f c) st = Some y" using that by blast
  have "b = body \<longrightarrow> s = step \<longrightarrow> cc = cond \<longrightarrow> c_for cond' step' body' (f d) st = Some y" if "c_for cc s b d st = Some y" for cc s b d
    using that
  proof (induction rule: c_for.raw_induct [rotated, consumes 1, case_names iter])
    case (iter g cc s b d st y)
    show ?case using iter(2)
      by (subst c_for.simps) (auto simp: cond step body split: bind_splits option.splits if_splits dest!: iter(1))
  qed
  then show "c_for cond' step' body' (f c) st = Some y" if "c_for cond step body c st = Some y" using that by blast
qed

subsection \<open>Loops over objects are loops over cells\<close>

lemma entry_neighbours:
  "list_next_entry h pos off = map_option (\<lambda>n. n - off) (get_next h (pos + off))"
  "list_prev_entry h pos off = map_option (\<lambda>n. n - off) (get_prev h (pos + off))"
  "list_first_entry h ptr off = map_option (\<lambda>n. n - off) (get_next h ptr)"
  "list_last_entry h ptr off = map_option (\<lambda>n. n - off) (get_prev h ptr)"
  by (simp_all add: list_next_entry_def list_prev_entry_def list_first_entry_def list_last_entry_def list_entry_def
      container_of_def map_conv_bind_option comp_def)

lemma entry_binds:
  "Option.bind (list_next_entry h pos off) F = Option.bind (get_next h (pos + off)) (\<lambda>n. F (n - off))"
  "Option.bind (list_prev_entry h pos off) F = Option.bind (get_prev h (pos + off)) (\<lambda>n. F (n - off))"
  "Option.bind (list_first_entry h ptr off) F = Option.bind (get_next h ptr) (\<lambda>n. F (n - off))"
  "Option.bind (list_last_entry h ptr off) F = Option.bind (get_prev h ptr) (\<lambda>n. F (n - off))"
  by (simp_all add: entry_neighbours map_conv_bind_option)

text \<open>The body of a loop over cells that works on the objects.\<close>

definition at_cells :: "u64 \<Rightarrow> 's loop_body \<Rightarrow> 's loop_body" where
  "at_cells off body p = body (p - off)"

lemma entry_loop_cells:
  "c_for (\<lambda>pos. pos + off \<noteq> head) (\<lambda>h pos. list_next_entry h pos off) body (p - off) =
     list_for_each_loop head (at_cells off body) p"
  "c_for (\<lambda>pos. pos + off \<noteq> head) (\<lambda>h pos. list_prev_entry h pos off) body (p - off) =
     list_for_each_prev_loop head (at_cells off body) p"
  unfolding list_for_each_loop_def list_for_each_prev_loop_def
  by (rule ext, rule c_for_map [where f = "\<lambda>p. p - off"]; simp add: entry_neighbours at_cells_def)+

lemma safe_entry_loop_cells:
  "c_for (\<lambda>(pos, n). pos + off \<noteq> head) (\<lambda>h (pos, n). map_option (Pair n) (list_next_entry h n off)) (\<lambda>(pos, n). body pos)
     (p - off, m - off) = list_for_each_safe_loop head (at_cells off body) p m"
  "c_for (\<lambda>(pos, n). pos + off \<noteq> head) (\<lambda>h (pos, n). map_option (Pair n) (list_prev_entry h n off)) (\<lambda>(pos, n). body pos)
     (p - off, m - off) = list_for_each_prev_safe_loop head (at_cells off body) p m"
  unfolding list_for_each_safe_loop_def list_for_each_prev_safe_loop_def
  by (rule ext, rule c_for_map [where f = "\<lambda>(p, n). (p - off, n - off)" and c = "(p, m)", simplified];
      auto simp: entry_neighbours at_cells_def option.map_comp comp_def)+

lemma entry_macros_cells:
  "list_for_each_entry head off body st = list_for_each head (at_cells off body) st"
  "list_for_each_entry_reverse head off body st = list_for_each_prev head (at_cells off body) st"
  "list_for_each_entry_safe head off body st = list_for_each_safe head (at_cells off body) st"
  "list_for_each_entry_safe_reverse head off body st = list_for_each_prev_safe head (at_cells off body) st"
  by (simp_all add: list_for_each_entry_def list_for_each_def list_for_each_entry_reverse_def list_for_each_prev_def
      list_for_each_entry_safe_def list_for_each_safe_def list_for_each_entry_safe_reverse_def list_for_each_prev_safe_def
      entry_binds entry_loop_cells safe_entry_loop_cells)

text \<open>The macros that start at an object, here the one whose cell is at \<open>p\<close>.\<close>

lemma entry_from_cells:
  "list_for_each_entry_from head off body (p - off) st = list_for_each_loop head (at_cells off body) p st"
  "list_for_each_entry_continue head off body (p - off) st =
     do { n \<leftarrow> get_next (fst st) p; list_for_each_loop head (at_cells off body) n st }"
  "list_for_each_entry_continue_reverse head off body (p - off) st =
     do { n \<leftarrow> get_prev (fst st) p; list_for_each_prev_loop head (at_cells off body) n st }"
  "list_for_each_entry_safe_from head off body (p - off) st =
     do { n \<leftarrow> get_next (fst st) p; list_for_each_safe_loop head (at_cells off body) p n st }"
  "list_for_each_entry_safe_continue head off body (p - off) st =
     do { p \<leftarrow> get_next (fst st) p; n \<leftarrow> get_next (fst st) p; list_for_each_safe_loop head (at_cells off body) p n st }"
  by (simp_all add: list_for_each_entry_from_def list_for_each_entry_continue_def list_for_each_entry_continue_reverse_def
      list_for_each_entry_safe_from_def list_for_each_entry_safe_continue_def entry_binds
      entry_loop_cells safe_entry_loop_cells)

subsection \<open>Members of a ring and their neighbours\<close>

lemma dlist_neighbours:
  assumes "dlist h head (xs @ e # ys)"
  shows "get_next h e = Some (hd (ys @ [head]))" "get_prev h e = Some (last (head # xs))"
proof -
  have s: "seg h head xs e" "seg h e ys head" using assms by (simp_all add: dlist_def)
  show "get_next h e = Some (hd (ys @ [head]))" using seg_first [OF s(2)] seg_dom [OF s(2)] by (simp add: heap_simps)
  show "get_prev h e = Some (last (head # xs))" using seg_last [OF s(1)] seg_dom [OF s(1)] by (simp add: heap_simps)
qed

lemma at_cells_reading: "at_cells off (reading f) = reading (\<lambda>p. f (p - off))"
  by (simp add: fun_eq_iff at_cells_def reading_def)

lemma run_body_map: "run_body (\<lambda>p. f (g p)) xs s = run_body f (map g xs) s"
  by (induction xs arbitrary: s) (auto split: bind_splits)

subsection \<open>Deleting the rest of a ring\<close>

text \<open>
  The safe loop from a member on, with a body that deletes: the saved neighbour stays a member,
  so the loop goes on from it.
\<close>

lemma safe_loop_deletes:
  assumes "dlist h head (xs @ ys)" "ys \<noteq> [] \<longrightarrow> n = hd (tl ys @ [head])"
  shows "\<exists>h'. list_for_each_safe_loop head deleting (hd (ys @ [head])) n (h, vs) = Some (h', vs @ ys) \<and> dlist h' head xs"
  using assms
proof (induction ys arbitrary: h n vs)
  case Nil
  then show ?case by (simp add: list_for_each_safe_loop_simps)
next
  case (Cons y ys)
  have n: "n = hd (ys @ [head])" and y: "y \<noteq> head" using Cons.prems by (auto simp: dlist_def)
  obtain h1 where h1: "list_del h y = Some h1" "dlist h1 head (xs @ ys)"
    using list_del_dlist [of h head xs y ys] Cons.prems(1) by auto
  have "\<exists>n'. get_next h1 n = Some n' \<and> (ys \<noteq> [] \<longrightarrow> n' = hd (tl ys @ [head]))"
    using dlist_next(4) [OF h1(2)] dlist_neighbours(1) [of h1 head xs "hd ys" "tl ys"] h1(2) n by (cases ys) auto
  then obtain n' where "get_next h1 n = Some n'" "ys \<noteq> [] \<longrightarrow> n' = hd (tl ys @ [head])" by blast
  with Cons.IH [OF h1(2), of n' "vs @ [y]"] h1(1) y n show ?case
    by (subst list_for_each_safe_loop_simps) (auto simp: deleting_apply)
qed

lemma prev_safe_loop_deletes:
  assumes "dlist h head (ys @ xs)" "ys \<noteq> [] \<longrightarrow> n = last (head # butlast ys)"
  shows "\<exists>h'. list_for_each_prev_safe_loop head deleting (last (head # ys)) n (h, vs) = Some (h', vs @ rev ys) \<and> dlist h' head xs"
  using assms
proof (induction ys arbitrary: h n vs rule: rev_induct)
  case Nil
  then show ?case by (simp add: list_for_each_prev_safe_loop_simps)
next
  case (snoc y ys)
  have n: "n = last (head # ys)" and y: "y \<noteq> head" using snoc.prems by (auto simp: dlist_def)
  obtain h1 where h1: "list_del h y = Some h1" "dlist h1 head (ys @ xs)"
    using list_del_dlist [of h head ys y xs] snoc.prems(1) by auto
  have "\<exists>n'. get_prev h1 n = Some n' \<and> (ys \<noteq> [] \<longrightarrow> n' = last (head # butlast ys))"
    using dlist_prev(3) [OF h1(2)] dlist_neighbours(2) [of h1 head "butlast ys" "last ys" xs] h1(2) n
    by (cases ys rule: rev_cases) auto
  then obtain n' where "get_prev h1 n = Some n'" "ys \<noteq> [] \<longrightarrow> n' = last (head # butlast ys)" by blast
  with snoc.IH [OF h1(2), of n' "vs @ [y]"] h1(1) y n show ?case
    by (subst list_for_each_prev_safe_loop_simps) (auto simp: deleting_apply)
qed

lemma list_for_each_prev_safe_deleting:
  assumes ring: "dlist h head xs"
  shows "\<exists>h'. list_for_each_prev_safe head deleting (h, []) = Some (h', rev xs) \<and> dlist h' head []"
proof -
  have "\<exists>n. get_prev h (last (head # xs)) = Some n \<and> (xs \<noteq> [] \<longrightarrow> n = last (head # butlast xs))"
    using dlist_prev(3) [OF ring] dlist_neighbours(2) [of h head "butlast xs" "last xs" "[]"] ring
    by (cases xs rule: rev_cases) auto
  then obtain n where "get_prev h (last (head # xs)) = Some n" "xs \<noteq> [] \<longrightarrow> n = last (head # butlast xs)" by blast
  with prev_safe_loop_deletes [of h head xs "[]" n "[]"] ring dlist_prev(3) [OF ring] show ?thesis
    by (simp add: list_for_each_prev_safe_def)
qed

text \<open>Deleting at the object: the body deletes the cell in it.\<close>

definition deleting_entry :: "u64 \<Rightarrow> addr list loop_body" where
  "deleting_entry off pos = deleting (pos + off)"

lemma at_cells_deleting [simp]: "at_cells off (deleting_entry off) = deleting"
  by (simp add: fun_eq_iff at_cells_def deleting_entry_def)

subsection \<open>Properties of the loops over objects\<close>

text \<open>C26: The loops over objects end on a ring and visit the containing objects of its cells, once
  each and up to a \<open>break\<close>: all of them forwards or backwards, those from an object on with or
  without itself, those before an object backwards; \<open>list_prepare_entry\<close> of a null cursor makes
  the continuing loop visit all.\<close>

theorem entry_loops_visit:
  assumes ring: "dlist h head (xs @ e # ys)"
  shows "list_for_each_entry head off (reading f) (h, s) = map_option (Pair h) (run_body f (map (\<lambda>p. p - off) (xs @ e # ys)) s) \<and>
    list_for_each_entry_reverse head off (reading f) (h, s) = map_option (Pair h) (run_body f (rev (map (\<lambda>p. p - off) (xs @ e # ys))) s) \<and>
    list_for_each_entry_from head off (reading f) (e - off) (h, s) = map_option (Pair h) (run_body f (map (\<lambda>p. p - off) (e # ys)) s) \<and>
    list_for_each_entry_continue head off (reading f) (e - off) (h, s) = map_option (Pair h) (run_body f (map (\<lambda>p. p - off) ys) s) \<and>
    list_for_each_entry_continue_reverse head off (reading f) (e - off) (h, s) = map_option (Pair h) (run_body f (rev (map (\<lambda>p. p - off) xs)) s) \<and>
    list_for_each_entry_continue head off (reading f) (list_prepare_entry NULL head off) (h, s) =
      list_for_each_entry head off (reading f) (h, s)"
proof -
  have seg: "seg h head xs e" "seg h e ys head" "seg h (last (head # xs)) (e # ys) head" "head \<notin> set xs" "head \<notin> set (e # ys)"
    using ring by (cases xs rule: rev_cases; auto simp: dlist_def)+
  note reads = entry_macros_cells entry_from_cells at_cells_reading rev_map run_body_map [symmetric]
  have "list_for_each_entry head off (reading f) (h, s) = map_option (Pair h) (run_body f (map (\<lambda>p. p - off) (xs @ e # ys)) s)"
    "list_for_each_entry_reverse head off (reading f) (h, s) = map_option (Pair h) (run_body f (rev (map (\<lambda>p. p - off) (xs @ e # ys))) s)"
    unfolding reads list_for_each_dlist [OF ring] list_for_each_prev_dlist [OF ring] by (rule refl)+
  moreover have "list_for_each_entry_from head off (reading f) (e - off) (h, s) = map_option (Pair h) (run_body f (map (\<lambda>p. p - off) (e # ys)) s)"
    unfolding reads using list_for_each_loop_seg [OF seg(3,5)] by simp
  moreover have "list_for_each_entry_continue head off (reading f) (e - off) (h, s) = map_option (Pair h) (run_body f (map (\<lambda>p. p - off) ys) s)"
    unfolding reads using list_for_each_loop_seg [OF seg(2)] seg(5) dlist_neighbours(1) [OF ring] by simp
  moreover have "list_for_each_entry_continue_reverse head off (reading f) (e - off) (h, s) = map_option (Pair h) (run_body f (rev (map (\<lambda>p. p - off) xs)) s)"
    unfolding reads using list_for_each_prev_loop_seg [OF seg(1,4) refl] dlist_neighbours(2) [OF ring] by (simp del: last.simps)
  moreover have "list_for_each_entry_continue head off (reading f) (list_prepare_entry NULL head off) (h, s) =
      list_for_each_entry head off (reading f) (h, s)"
    by (simp add: list_prepare_entry_def list_entry_def container_of_def entry_from_cells entry_macros_cells list_for_each_def)
  ultimately show ?thesis by blast
qed

theorem entry_loops_visit_witness:
  "list_for_each_entry_continue 16 8 (reading (\<lambda>pos vs. Some (vs @ [pos], False))) 40 (demo_heap, []) = Some (demo_heap, [56])"
  using entry_loops_visit [OF demo_rings(1), of 8 "\<lambda>pos vs. Some (vs @ [pos], False)" "[]"] by simp

text \<open>C27: The safe loops over objects may delete the object they are at: forwards and backwards they
  empty the ring, in their order, and from an object on, with or without itself, they leave
  exactly the members before.\<close>

theorem entry_loops_delete:
  assumes ring: "dlist h head (xs @ e # ys)"
  shows "(\<exists>h'. list_for_each_entry_safe head off (deleting_entry off) (h, []) = Some (h', xs @ e # ys) \<and> dlist h' head []) \<and>
    (\<exists>h'. list_for_each_entry_safe_reverse head off (deleting_entry off) (h, []) = Some (h', rev (xs @ e # ys)) \<and> dlist h' head []) \<and>
    (\<exists>h'. list_for_each_entry_safe_from head off (deleting_entry off) (e - off) (h, []) = Some (h', e # ys) \<and> dlist h' head xs) \<and>
    (\<exists>h'. list_for_each_entry_safe_continue head off (deleting_entry off) (e - off) (h, []) = Some (h', ys) \<and> dlist h' head (xs @ [e]))"
proof (intro conjI)
  show "\<exists>h'. list_for_each_entry_safe head off (deleting_entry off) (h, []) = Some (h', xs @ e # ys) \<and> dlist h' head []"
    using list_for_each_safe_deleting [OF ring] by (simp add: entry_macros_cells)
  show "\<exists>h'. list_for_each_entry_safe_reverse head off (deleting_entry off) (h, []) = Some (h', rev (xs @ e # ys)) \<and> dlist h' head []"
    using list_for_each_prev_safe_deleting [OF ring] by (simp add: entry_macros_cells)
  show "\<exists>h'. list_for_each_entry_safe_from head off (deleting_entry off) (e - off) (h, []) = Some (h', e # ys) \<and> dlist h' head xs"
    using safe_loop_deletes [of h head xs "e # ys" "hd (ys @ [head])" "[]"] ring dlist_neighbours(1) [OF ring]
    by (simp add: entry_from_cells)
  have "\<exists>n. get_next h (hd (ys @ [head])) = Some n \<and> (ys \<noteq> [] \<longrightarrow> n = hd (tl ys @ [head]))"
    using dlist_next(4) [OF ring] dlist_neighbours(1) [of h head "xs @ [e]" "hd ys" "tl ys"] ring by (cases ys) auto
  then obtain n where "get_next h (hd (ys @ [head])) = Some n" "ys \<noteq> [] \<longrightarrow> n = hd (tl ys @ [head])" by blast
  then show "\<exists>h'. list_for_each_entry_safe_continue head off (deleting_entry off) (e - off) (h, []) = Some (h', ys) \<and> dlist h' head (xs @ [e])"
    using safe_loop_deletes [of h head "xs @ [e]" ys n "[]"] ring dlist_neighbours(1) [OF ring] by (simp add: entry_from_cells)
qed

theorem entry_loops_delete_witness:
  "\<exists>h'. list_for_each_entry_safe_continue 16 8 (deleting_entry 8) 40 (demo_heap, []) = Some (h', [64]) \<and> dlist h' 16 [32, 48]"
  using entry_loops_delete [OF demo_rings(1), of 8] by simp

end
