(* ===== verification/Hook_Types.thy ===== *)
theory Hook_Types
  imports Clist_Loops
begin

text \<open>
  The data of \<^verbatim>\<open>include/hook.h\<close>: the shared-memory records, the tracked allocations, the
  device record of the hook library and the values of the macros. A C pointer to one
  particular record is an option of that record (\<open>None\<close> is the null pointer) where the
  code never aliases it, and an address where it does (the list cells). The list cells
  and the entries that embed them live in the three maps of \<open>hook_state\<close>.
\<close>

subsection \<open>Constants\<close>

definition NVIDIA_DEVICE_MAJOR :: u32 where
  "NVIDIA_DEVICE_MAJOR = 195"

definition NVIDIA_CTL_MINOR :: u32 where
  "NVIDIA_CTL_MINOR = 0xFF"

definition MAX_CGROUP_ID_LEN :: nat where
  "MAX_CGROUP_ID_LEN = 16"

definition LAUNCH_SAMPLES :: nat where
  "LAUNCH_SAMPLES = 10"

text \<open>The error numbers of Linux that the sources return or compare with.\<close>

definition ENOENT :: int where "ENOENT = 2"
definition EINTR :: int where "EINTR = 4"
definition ENOMEM :: int where "ENOMEM = 12"
definition EEXIST :: int where "EEXIST = 17"
definition EINVAL :: int where "EINVAL = 22"

lemmas errno_defs [simp] = ENOENT_def EINTR_def ENOMEM_def EEXIST_def EINVAL_def

subsection \<open>Shared memory: token parameters and the memory budget\<close>

record timespec =
  tv_sec :: int
  tv_nsec :: int

record token_param_t =
  add_per_cycle :: int
  core_limit :: int
  mod_times :: int
  avg_launchs :: "int list"
  launch_idx :: int
  launch_times :: u32

record token_attr_t =
  changed :: bool
  inited :: bool
  wait_time :: timespec
  params :: token_param_t
  ready :: nat

record fb_info_t =
  pid :: int
  total_mem :: u64
  free_mem :: u64

subsection \<open>The real functions\<close>

text \<open>Addresses of the functions that the library stands in front of; 0 until they are found.\<close>

record dlfcn_t =
  dl_once :: bool
  dl_dlopen :: addr
  dl_dlsym :: addr
  dl_dladdr :: addr
  dl_dlclose :: addr
  dl_ioctl :: addr

subsection \<open>Tracked objects\<close>

record device_mem_t =
  dm_object :: u32
  dm_size :: u64

record rm_mem_t =
  rm_object :: u32
  rm_device_id :: u32

text \<open>Offsets of the embedded \<open>node\<close> members (LP64 layout).\<close>

definition off_device_mem :: u64 where
  "off_device_mem = 16"

definition off_rm_mem :: u64 where
  "off_rm_mem = 8"

subsection \<open>The device record and the allocated cells\<close>

record device_prop_t =
  mu :: bool
  major :: u32
  minor :: u32
  fb_info :: "fb_info_t option"
  alloc_mem :: u64
  tokens :: nat
  attr :: "token_attr_t option"
  mem_limited :: bool
  core_limited :: bool
  heap_mem_list :: addr
  rm_mem_list :: addr

record hook_state = device_prop_t +
  links :: heap
  mem_ents :: "addr \<rightharpoonup> device_mem_t"
  rm_ents :: "addr \<rightharpoonup> rm_mem_t"

subsection \<open>Mutex, allocation and release\<close>

text \<open>
  \<open>pthread_mutex_lock\<close> on the default mutex blocks for ever when the mutex is held and
  nobody will release it; a call of the library is modelled from entry to exit, so a
  mutex that is held at the call's own lock operation was left locked before.
\<close>

definition mutex_lock :: "hook_state \<Rightarrow> hook_state res" where
  "mutex_lock st = (if mu st then Inl Deadlock else Inr (st\<lparr>mu := True\<rparr>))"

definition mutex_unlock :: "hook_state \<Rightarrow> hook_state" where
  "mutex_unlock st = st\<lparr>mu := False\<rparr>"

text \<open>
  \<open>malloc\<close> of an entry at address \<open>m\<close> maps its embedded cell, whose content is
  indeterminate until it is linked; \<open>free\<close> unmaps the cell and the entry.
\<close>

definition new_cell :: "addr \<Rightarrow> heap \<Rightarrow> heap" where
  "new_cell p h = h(p \<mapsto> \<lparr>lnext = 0, lprev = 0\<rparr>)"

definition free_cell :: "addr \<Rightarrow> heap \<Rightarrow> heap" where
  "free_cell p h = h(p := None)"

end
