(* ===== verification/Util.thy ===== *)
theory Util
  imports Cstring Hook_Types
begin

text \<open>
  The helpers of \<^verbatim>\<open>src/util.c\<close> (\<open>iec_to_bytes\<close> is in theory \<open>Env\<close>, with the
  floating-point numbers it needs) and the names of the shared-memory objects. System
  calls are represented by their outcomes, which are arguments.
\<close>

subsection \<open>The hook table\<close>

record entry_t =
  real_pfn :: addr
  hook_pfn :: addr
  sym_name :: string
  ent_flags :: u64
  ent_cudaVersion :: int

function find_entry_loop :: "entry_t list \<Rightarrow> nat \<Rightarrow> string \<Rightarrow> nat \<Rightarrow> nat option res" where
  "find_entry_loop list sz symbol i =
     (if i < sz then
        (if i < length list then
           (if sym_name (list ! i) = symbol then Inr (Some i) else find_entry_loop list sz symbol (Suc i))
         else Inl BadAccess)
      else Inr None)"
  by pat_completeness auto
termination
  by (relation "measure (\<lambda>(list, sz, symbol, i). sz - i)") auto

declare find_entry_loop.simps [simp del]

definition find_entry :: "entry_t list \<Rightarrow> nat \<Rightarrow> string \<Rightarrow> nat option res" where
  "find_entry list sz symbol = find_entry_loop list sz symbol 0"

definition get_env_from :: "string \<Rightarrow> string option" where
  "get_env_from str = map_option tl (strchr str CHR ''='')"

subsection \<open>Device numbers\<close>

record stat =
  st_mode :: u32
  st_rdev :: u64

definition dev_major :: "u64 \<Rightarrow> u32" where
  "dev_major dev = ucast (drop_bit 8 (dev AND 0xFFF00) OR drop_bit 32 (dev AND 0xFFFFF00000000000))"

definition dev_minor :: "u64 \<Rightarrow> u32" where
  "dev_minor dev = ucast ((dev AND 0xFF) OR drop_bit 12 (dev AND 0xFFFFFF00000))"

definition S_IFMT :: u32 where "S_IFMT = 0xF000"
definition S_IFCHR :: u32 where "S_IFCHR = 0x2000"

text \<open>The outcome of \<open>fstat\<close> is its return value and the record it fills.\<close>

definition get_device_number :: "int \<times> stat \<Rightarrow> u32 \<times> u32 \<Rightarrow> int \<times> u32 \<times> u32" where
  "get_device_number fstat mm =
     (case fstat of (ret, st) \<Rightarrow>
        if ret < 0 then (ret, mm)
        else if st_mode st AND S_IFMT \<noteq> S_IFCHR then (- 1, 0, 0)
        else (0, dev_major (st_rdev st), dev_minor (st_rdev st)))"

subsection \<open>The container's identifier\<close>

abbreviation NUL :: char where
  "NUL \<equiv> CHR 0x00"

text \<open>The C string at the start of a buffer, and \<open>strncpy\<close> into a buffer.\<close>

definition cstr :: "string \<Rightarrow> string" where
  "cstr buf = takeWhile (\<lambda>c. c \<noteq> NUL) buf"

definition strncpy :: "string \<Rightarrow> string \<Rightarrow> nat \<Rightarrow> string" where
  "strncpy dst src n = take n (cstr src @ replicate n NUL) @ drop n dst"

text \<open>The index behind the last slash of a whole buffer, counting down from its end.\<close>

fun after_slash :: "string \<Rightarrow> nat \<Rightarrow> nat option" where
  "after_slash line 0 = None"
| "after_slash line (Suc i) = (if line ! i = CHR ''/'' then Some (Suc i) else after_slash line i)"

text \<open>
  A successful \<open>getline\<close> leaves the line, its null character and whatever follows up to
  the capacity \<open>len\<close> in the buffer; the list holds the buffer after each call.
\<close>

fun cgroup_lines :: "string list \<Rightarrow> string \<Rightarrow> nat \<Rightarrow> (int \<times> string) res" where
  "cgroup_lines [] short_id id_len = Inr (- 1, short_id)"
| "cgroup_lines (line # later) short_id id_len =
     (if occurs_in ''devices'' (cstr line) then
        (case after_slash line (length line) of
           None \<Rightarrow> cgroup_lines later short_id id_len
         | Some i \<Rightarrow>
             let max_copy = min (length line - i) id_len in
             if max_copy = 0 then Inl BadAccess
             else Inr (0, (strncpy short_id (drop i line) max_copy)[max_copy - 1 := NUL]))
      else cgroup_lines later short_id id_len)"

definition get_cgroup_id :: "string list option \<Rightarrow> string \<Rightarrow> nat \<Rightarrow> (int \<times> string) res" where
  "get_cgroup_id file short_id id_len =
     (case file of None \<Rightarrow> Inr (- 1, short_id) | Some lines \<Rightarrow> cgroup_lines lines short_id id_len)"

subsection \<open>Shared memory\<close>

text \<open>
  The outcomes of the calls: the two \<open>shm_open\<close> calls, \<open>ftruncate\<close> and \<open>mmap\<close>. The fields
  of the caller's \<open>share_data_t\<close> are \<open>None\<close> until they are written.
\<close>

record shm_calls =
  excl_open :: int
  excl_errno :: int
  plain_open :: int
  ftruncate_ret :: int
  mmap_ret :: addr

record share_data_t =
  sd_fd :: "int option"
  sd_addr :: "addr option"

definition MAP_FAILED :: addr where
  "MAP_FAILED = - 1"

definition map_shm :: "shm_calls \<Rightarrow> share_data_t \<Rightarrow> int \<Rightarrow> bool \<Rightarrow> addr \<times> share_data_t \<times> bool" where
  "map_shm c sd fd first =
     (let sd = sd\<lparr>sd_fd := Some fd\<rparr> in
      if first \<and> ftruncate_ret c < 0 then (NULL, sd, False)
      else if mmap_ret c = MAP_FAILED then (MAP_FAILED, sd, False)
      else (mmap_ret c, sd\<lparr>sd_addr := Some (mmap_ret c)\<rparr>, first))"

text \<open>
  The result is the returned address, the caller's record, and whether the object was
  filled with zeros.
\<close>

definition create_shm_addr :: "shm_calls \<Rightarrow> share_data_t \<Rightarrow> addr \<times> share_data_t \<times> bool" where
  "create_shm_addr c sd =
     (if excl_open c < 0 then
        (if excl_errno c \<noteq> EEXIST then (NULL, sd, False)
         else if plain_open c < 0 then (NULL, sd, False)
         else map_shm c sd (plain_open c) False)
      else map_shm c sd (excl_open c) True)"

text \<open>The object names \<open>/cuda_hook_fb.%x\<close> and \<open>/cuda_hook.%x.%s\<close>, and \<open>/proc/%d/exe\<close>.\<close>

definition fb_shm_path :: "u32 \<Rightarrow> string" where
  "fb_shm_path mnr = ''/cuda_hook_fb.'' @ hex_of (unat mnr)"

definition token_shm_path :: "u32 \<Rightarrow> string \<Rightarrow> string" where
  "token_shm_path mnr cgroup_id = ''/cuda_hook.'' @ hex_of (unat mnr) @ ''.'' @ cgroup_id"

definition proc_exe_path :: "int \<Rightarrow> string" where
  "proc_exe_path p = ''/proc/'' @ dec_of_int p @ ''/exe''"

subsection \<open>Sleeping\<close>

text \<open>
  Each \<open>nanosleep\<close> call has an outcome: the return value, \<open>errno\<close> and the remaining
  time. The model returns the value of the function and the requests it made, and
  \<open>None\<close> when it has used all given outcomes without returning.
\<close>

type_synonym sleep_outcome = "int \<times> int \<times> timespec"

fun wait_again :: "timespec \<Rightarrow> timespec \<Rightarrow> sleep_outcome list \<Rightarrow> (int \<times> timespec list) option" where
  "wait_again req remain [] = None"
| "wait_again req remain ((ret, err, remain') # os) =
     (let req = req\<lparr>tv_nsec := tv_nsec remain\<rparr> in
      if ret \<noteq> 0 then map_option (\<lambda>(r, reqs). (r, req # reqs)) (wait_again req remain' os)
      else Some (ret, [req]))"

fun wait_duration :: "timespec \<Rightarrow> sleep_outcome list \<Rightarrow> (int \<times> timespec list) option" where
  "wait_duration interval [] = None"
| "wait_duration interval ((ret, err, remain) # os) =
     (let req = \<lparr>tv_sec = tv_sec interval, tv_nsec = tv_nsec interval\<rparr> in
      if ret \<noteq> 0 then
        (if err \<noteq> EINTR then Some (ret, [req])
         else map_option (\<lambda>(r, reqs). (r, req # reqs)) (wait_again req remain os))
      else Some (ret, [req]))"

subsection \<open>Lookup\<close>

lemma find_entry_loop_find:
  assumes "i \<le> length list"
  shows "find_entry_loop list (length list) symbol i =
    Inr (find (\<lambda>j. sym_name (list ! j) = symbol) [i..<length list])"
  using assms
proof (induction "length list - i" arbitrary: i)
  case 0
  then show ?case by (subst find_entry_loop.simps) simp
next
  case (Suc n)
  then have i: "i < length list" by simp
  with Suc show ?case
    by (subst find_entry_loop.simps) (simp add: upt_conv_Cons)
qed

lemma find_entry_eq:
  "find_entry list (length list) symbol = Inr (find (\<lambda>j. sym_name (list ! j) = symbol) [0..<length list])"
  by (simp add: find_entry_def find_entry_loop_find)

lemma find_entry_Some:
  assumes "find_entry list (length list) symbol = Inr (Some i)"
  shows "i < length list" "sym_name (list ! i) = symbol" "\<And>j. j < i \<Longrightarrow> sym_name (list ! j) \<noteq> symbol"
proof -
  have "find (\<lambda>j. sym_name (list ! j) = symbol) [0..<length list] = Some i"
    using assms by (simp add: find_entry_eq)
  then obtain k where k: "k < length list" "sym_name (list ! k) = symbol" "i = k"
    "\<forall>j<k. sym_name (list ! j) \<noteq> symbol"
    unfolding find_Some_iff by auto
  then show "i < length list" "sym_name (list ! i) = symbol" "\<And>j. j < i \<Longrightarrow> sym_name (list ! j) \<noteq> symbol"
    by auto
qed

lemma find_entry_None:
  "find_entry list (length list) symbol = Inr None \<longleftrightarrow> symbol \<notin> sym_name ` set list"
  by (auto simp: find_entry_eq find_None_iff set_conv_nth)

lemma find_entry_distinct:
  assumes "distinct (map sym_name list)" "i < length list"
  shows "find_entry list (length list) (sym_name (list ! i)) = Inr (Some i)"
proof -
  obtain r where r: "find_entry list (length list) (sym_name (list ! i)) = Inr r"
    by (simp add: find_entry_eq)
  show ?thesis
  proof (cases r)
    case None
    with r assms(2) show ?thesis by (auto simp: find_entry_None)
  next
    case (Some j)
    then have "j < length list" "sym_name (list ! j) = sym_name (list ! i)"
      using find_entry_Some r by blast+
    then have "j = i" using assms by (metis length_map nth_eq_iff_index_eq nth_map)
    with r Some show ?thesis by simp
  qed
qed

subsection \<open>The last slash\<close>

lemma after_slash_append:
  assumes "CHR ''/'' \<notin> set ys"
  shows "after_slash (xs @ CHR ''/'' # ys) (length (xs @ CHR ''/'' # ys)) = Some (Suc (length xs))"
proof -
  have "after_slash (xs @ CHR ''/'' # ys) (Suc (length xs) + n) = Some (Suc (length xs))" if "n \<le> length ys" for n
    using that
  proof (induction n)
    case (Suc n)
    then have "ys ! n \<noteq> CHR ''/''" using assms by (metis Suc_le_lessD nth_mem)
    with Suc show ?case by (simp add: nth_append)
  qed simp
  from this [of "length ys"] show ?thesis by simp
qed

lemma after_slash_None:
  assumes "n \<le> length line" "CHR ''/'' \<notin> set line"
  shows "after_slash line n = None"
  using assms
proof (induction n)
  case (Suc n)
  then have "line ! n \<in> set line" by simp
  with Suc.prems(2) have "line ! n \<noteq> CHR ''/''" by metis
  with Suc show ?case by simp
qed simp

lemma cstr_append_NUL [simp]: "NUL \<notin> set s \<Longrightarrow> cstr (s @ NUL # t) = s"
  by (induction s) (auto simp: cstr_def)

lemma cstr_strncpy:
  assumes "NUL \<notin> set s" "0 < n" "n \<le> length dst"
  shows "cstr ((strncpy dst (s @ NUL # t) n)[n - 1 := NUL]) = take (n - 1) s"
proof (cases "n \<le> length s")
  case True
  have "(take n s @ drop n dst)[n - 1 := NUL] = take (n - 1) s @ NUL # drop n dst"
    using True assms(2) by (simp add: list_update_append upd_conv_take_nth_drop)
  moreover have "NUL \<notin> set (take (n - 1) s)" using assms(1) by (meson in_set_takeD)
  ultimately show ?thesis using True assms(1) by (simp add: strncpy_def)
next
  case False
  define k where "k = n - Suc (length s)"
  have k: "n - length s = Suc k" "n - 1 = length s + k" "take n s = s" using False by (auto simp: k_def)
  have "(replicate (Suc k) NUL @ drop n dst)[k := NUL] = replicate (Suc k) NUL @ drop n dst"
    by (metis length_replicate lessI list_update_append1 list_update_id nth_replicate)
  moreover have "(s @ X)[length s + k := NUL] = s @ X" if "X[k := NUL] = X" for X
    using that by (simp add: list_update_append)
  ultimately have "(s @ replicate (Suc k) NUL @ drop n dst)[n - 1 := NUL] = s @ replicate (Suc k) NUL @ drop n dst"
    unfolding k(2) by blast
  moreover have "strncpy dst (s @ NUL # t) n = s @ replicate (Suc k) NUL @ drop n dst"
    using k(1,3) assms(1) by (simp add: strncpy_def)
  ultimately show ?thesis using k(2) assms(1) by simp
qed

lemma find_entry_Some_iff:
  "find_entry list (length list) symbol = Inr (Some i) \<longleftrightarrow>
     i < length list \<and> sym_name (list ! i) = symbol \<and> (\<forall>j<i. sym_name (list ! j) \<noteq> symbol)"
  unfolding find_entry_eq by (auto simp: find_Some_iff)

lemma not_in_take: "i \<le> length list \<Longrightarrow> (\<forall>j<i. f (list ! j) \<noteq> s) \<longleftrightarrow> s \<notin> f ` set (take i list)"
  by (force simp: in_set_conv_nth)

lemma find_entry_total: "\<exists>r. find_entry list (length list) symbol = Inr r"
  by (simp add: find_entry_eq)

subsection \<open>The identifier of a container\<close>

text \<open>The buffer after a call of \<open>getline\<close>: the line, its null character, and older content.\<close>

definition line_buf :: "string \<Rightarrow> string \<Rightarrow> string" where
  "line_buf line junk = line @ NUL # junk"

lemma cgroup_lines_skip:
  assumes "\<forall>b \<in> set bufs. \<not> occurs_in ''devices'' (cstr b)"
  shows "cgroup_lines (bufs @ later) short_id id_len = cgroup_lines later short_id id_len"
  using assms by (induction bufs) auto

lemma get_cgroup_id_line:
  assumes skip: "\<forall>b \<in> set bufs. \<not> occurs_in ''devices'' (cstr b)"
    and dev: "occurs_in ''devices'' (pre @ CHR ''/'' # ident)"
    and nul: "NUL \<notin> set (pre @ ident)" and slash: "CHR ''/'' \<notin> set (ident @ junk)"
    and len: "0 < id_len" "id_len \<le> length short_id"
  shows "\<exists>buf. get_cgroup_id (Some (bufs @ line_buf (pre @ CHR ''/'' # ident) junk # later)) short_id id_len = Inr (0, buf) \<and>
    cstr buf = take (min (length ident + Suc (length junk)) id_len - 1) ident"
proof -
  define n where "n = min (length ident + Suc (length junk)) id_len"
  let ?line = "line_buf (pre @ CHR ''/'' # ident) junk"
  have line: "?line = pre @ CHR ''/'' # (ident @ NUL # junk)" by (simp add: line_buf_def)
  have "after_slash ?line (length ?line) = Some (Suc (length pre))"
    unfolding line by (rule after_slash_append) (use slash in simp)
  moreover have "cstr ?line = pre @ CHR ''/'' # ident"
    unfolding line_buf_def using nul by (intro cstr_append_NUL) auto
  moreover have "drop (Suc (length pre)) ?line = ident @ NUL # junk" "length ?line - Suc (length pre) = length ident + Suc (length junk)"
    by (simp_all add: line)
  moreover have "0 < n" "n \<le> length short_id" using len by (auto simp: n_def)
  ultimately have "get_cgroup_id (Some (bufs @ ?line # later)) short_id id_len =
      Inr (0, (strncpy short_id (ident @ NUL # junk) n)[n - 1 := NUL])"
    using dev by (simp add: get_cgroup_id_def cgroup_lines_skip [OF skip] Let_def n_def)
  moreover have "cstr ((strncpy short_id (ident @ NUL # junk) n)[n - 1 := NUL]) = take (n - 1) ident"
    using nul \<open>0 < n\<close> \<open>n \<le> length short_id\<close> by (intro cstr_strncpy) auto
  ultimately show ?thesis by (auto simp: n_def)
qed

subsection \<open>Names of shared objects\<close>

lemma split_at_dot:
  assumes "a @ ''.'' @ b = a' @ ''.'' @ b'" "CHR ''.'' \<notin> set a" "CHR ''.'' \<notin> set a'"
  shows "a = a' \<and> b = b'"
  using assms
proof (induction a arbitrary: a')
  case Nil
  then show ?case by (cases a') auto
next
  case (Cons x a)
  then show ?case by (cases a') auto
qed

lemma token_shm_path_inj: "token_shm_path m c = token_shm_path m' c' \<longleftrightarrow> m = m' \<and> c = c'"
proof
  assume "token_shm_path m c = token_shm_path m' c'"
  then have "hex_of (unat m) @ ''.'' @ c = hex_of (unat m') @ ''.'' @ c'" by (simp add: token_shm_path_def)
  from split_at_dot [OF this hex_of_no_dot hex_of_no_dot] show "m = m' \<and> c = c'"
    using hex_of_inj [of "unat m" "unat m'"] by (auto dest: unsigned_word_eqI)
qed simp

subsection \<open>Interrupted sleeps\<close>

lemma wait_again_interrupted:
  "wait_again \<lparr>tv_sec = s, tv_nsec = k\<rparr> r (map (\<lambda>(e, r). (- 1, e, r)) es @ [(0, e, r')]) =
     Some (0, map (\<lambda>r. \<lparr>tv_sec = s, tv_nsec = tv_nsec r\<rparr>) (r # map snd es))"
  by (induction es arbitrary: k r) (auto simp: Let_def)

lemma wait_again_failing: "wait_again req r (map (\<lambda>(e, r). (- 1, e, r)) es) = None"
  by (induction es arbitrary: req r) (auto simp: Let_def)

subsection \<open>Properties of the helpers\<close>

text \<open>The object was opened, new (and of the right size) or existing.\<close>

definition shm_opened :: "shm_calls \<Rightarrow> bool" where
  "shm_opened c \<longleftrightarrow> 0 \<le> excl_open c \<and> 0 \<le> ftruncate_ret c \<or>
     excl_open c < 0 \<and> excl_errno c = EEXIST \<and> 0 \<le> plain_open c"

text \<open>The lookup in the hook table returns the index of the first entry with the name, and
  nothing exactly when no entry has it; it never leaves the table.\<close>

lemma find_entry_correct:
  "(\<exists>r. find_entry list (length list) symbol = Inr r) \<and>
   (find_entry list (length list) symbol = Inr None \<longleftrightarrow> symbol \<notin> sym_name ` set list) \<and>
   (\<forall>i. find_entry list (length list) symbol = Inr (Some i) \<longleftrightarrow>
      i < length list \<and> sym_name (list ! i) = symbol \<and> symbol \<notin> sym_name ` set (take i list))"
proof (intro conjI allI)
  fix i
  show "find_entry list (length list) symbol = Inr (Some i) \<longleftrightarrow>
      i < length list \<and> sym_name (list ! i) = symbol \<and> symbol \<notin> sym_name ` set (take i list)"
    using find_entry_Some_iff [of list symbol i] not_in_take [of i list sym_name symbol] by auto
qed (rule find_entry_total, rule find_entry_None)

text \<open>C39: \<open>get_cgroup_id\<close> finds the container's identifier: on the first line of the file that
  names the device controller it copies what follows the last slash, cut to one character less
  than the buffer of the caller, and terminates it, as long as the rest of the line buffer
  holds no slash. The newline of the line is part of the identifier.\<close>

theorem cgroup_id_correct:
  assumes "\<forall>b \<in> set bufs. \<not> occurs_in ''devices'' (cstr b)"
    and "occurs_in ''devices'' (pre @ CHR ''/'' # ident)"
    and "NUL \<notin> set (pre @ ident)" and "CHR ''/'' \<notin> set (ident @ junk)"
    and "0 < id_len" "id_len \<le> length short_id"
  shows "\<exists>buf. get_cgroup_id (Some (bufs @ line_buf (pre @ CHR ''/'' # ident) junk # later)) short_id id_len = Inr (0, buf) \<and>
    cstr buf = take (min (length ident + Suc (length junk)) id_len - 1) ident"
  by (rule get_cgroup_id_line [OF assms])

theorem cgroup_id_correct_witness:
  "\<exists>buf. get_cgroup_id (Some ([line_buf ''0::/x'' []] @ line_buf (''4:devices:/pod'' @ CHR ''/'' # ''5680af4f12fc9a33'') [] # []))
      (replicate 16 NUL) 16 = Inr (0, buf) \<and> cstr buf = ''5680af4f12fc9a3''"
  using cgroup_id_correct [of "[line_buf ''0::/x'' []]" "''4:devices:/pod''" "''5680af4f12fc9a33''" "[]" 16 "replicate 16 NUL" "[]"]
  by (simp add: line_buf_def cstr_def)

text \<open>The names of shared objects identify what they belong to: two devices have different
  budget objects, two pairs of a device and a container different token objects, and no budget
  object is a token object.\<close>

lemma shm_paths_distinct:
  "(fb_shm_path m = fb_shm_path m' \<longleftrightarrow> m = m') \<and>
   (token_shm_path m c = token_shm_path m' c' \<longleftrightarrow> m = m' \<and> c = c') \<and>
   fb_shm_path m \<noteq> token_shm_path m' c"
proof (intro conjI)
  show "fb_shm_path m = fb_shm_path m' \<longleftrightarrow> m = m'"
    using hex_of_inj [of "unat m" "unat m'"] by (auto simp: fb_shm_path_def dest: unsigned_word_eqI)
  show "fb_shm_path m \<noteq> token_shm_path m' c" by (simp add: fb_shm_path_def token_shm_path_def)
qed (rule token_shm_path_inj)

text \<open>What \<open>create_shm_addr\<close> returns: the caller's record gets its address, and a new object
  is filled with zeros, exactly when the object was opened and mapped; when the mapping fails the
  function returns \<open>MAP_FAILED\<close>, which is not the null pointer its callers test for; in every
  other failure it returns the null pointer.\<close>

lemma create_shm_addr_cases:
  assumes "create_shm_addr c sd = (a, sd', zeroed)" and kernel: "mmap_ret c \<noteq> NULL"
  shows "(a = NULL \<longleftrightarrow> \<not> shm_opened c) \<and> (a = MAP_FAILED \<longleftrightarrow> shm_opened c \<and> mmap_ret c = MAP_FAILED) \<and>
    (if shm_opened c \<and> mmap_ret c \<noteq> MAP_FAILED then a = mmap_ret c \<and> sd_addr sd' = Some a else sd_addr sd' = sd_addr sd) \<and>
    (zeroed \<longleftrightarrow> shm_opened c \<and> mmap_ret c \<noteq> MAP_FAILED \<and> 0 \<le> excl_open c)"
  using assms
  by (auto simp: create_shm_addr_def map_shm_def Let_def MAP_FAILED_def shm_opened_def split: if_splits)

lemma create_shm_addr_cases_witness:
  "create_shm_addr \<lparr>excl_open = 3, excl_errno = 0, plain_open = 0, ftruncate_ret = 0, mmap_ret = MAP_FAILED\<rparr>
     \<lparr>sd_fd = None, sd_addr = None\<rparr> = (MAP_FAILED, \<lparr>sd_fd = Some 3, sd_addr = None\<rparr>, False) \<and> MAP_FAILED \<noteq> NULL"
proof -
  let ?c = "\<lparr>excl_open = 3, excl_errno = 0, plain_open = 0, ftruncate_ret = 0, mmap_ret = MAP_FAILED\<rparr>"
  have "create_shm_addr ?c \<lparr>sd_fd = None, sd_addr = None\<rparr> = (MAP_FAILED, \<lparr>sd_fd = Some 3, sd_addr = None\<rparr>, False)"
    by (simp add: create_shm_addr_def map_shm_def)
  with create_shm_addr_cases [OF this] show ?thesis by (simp add: shm_opened_def MAP_FAILED_def)
qed

text \<open>C40: An interrupted \<open>wait_duration\<close> sleeps again until a sleep succeeds and then returns 0;
  every further request has the remaining nanoseconds but the seconds of the first request.
  When the first sleep is interrupted and every later one fails, for whatever reason, it never
  returns.\<close>

theorem wait_duration_interrupted:
  "wait_duration \<lparr>tv_sec = s, tv_nsec = k\<rparr> ((- 1, EINTR, r) # map (\<lambda>(e, r). (- 1, e, r)) es @ [(0, e, r')]) =
     Some (0, \<lparr>tv_sec = s, tv_nsec = k\<rparr> # map (\<lambda>r. \<lparr>tv_sec = s, tv_nsec = tv_nsec r\<rparr>) (r # map snd es)) \<and>
   wait_duration \<lparr>tv_sec = s, tv_nsec = k\<rparr> ((- 1, EINTR, r) # map (\<lambda>(e, r). (- 1, e, r)) es) = None"
  using wait_again_interrupted [of s k r es e r'] wait_again_failing [of "\<lparr>tv_sec = s, tv_nsec = k\<rparr>" r es]
  by (simp add: Let_def)

end
