(* ===== verification/Ioctl_Hook.thy ===== *)
theory Ioctl_Hook
  imports Hook_Types
begin

text \<open>
  The request handlers of \<^verbatim>\<open>src/ioctl_hook.c\<close>: what the library does before it forwards
  an ioctl to the NVIDIA driver (\<open>pre_*\<close>) and after the driver answered (\<open>post_*\<close>).
  The handlers work on the linked lists of tracked objects through the operations of
  theory \<open>Clist\<close>.

  The values of the driver's request numbers, object classes and status codes come from
  the NVIDIA headers, which are downloaded at build time; they are the fields of the
  record \<open>nv_abi\<close>, an argument of the handlers. The parameter blocks carry the fields
  that the handlers read or write.
\<close>

subsection \<open>The driver's constants and parameter blocks\<close>

record nv_abi =
  NV_ESC_RM_VID_HEAP_CONTROL :: u32
  NV_ESC_RM_ALLOC :: u32
  NV_ESC_RM_CONTROL :: u32
  NV_ESC_RM_FREE :: u32
  NVOS32_FUNCTION_ALLOC_SIZE :: u32
  NVOS32_FUNCTION_INFO :: u32
  NV01_MEMORY_LOCAL_USER :: u32
  NV01_DEVICE_0 :: u32
  NV20_SUBDEVICE_0 :: u32
  NV2080_CTRL_CMD_FB_GET_INFO :: u32
  NV2080_CTRL_CMD_FB_GET_INFO_V2 :: u32
  FB_INFO_INDEX_TOTAL_RAM_SIZE :: u32
  FB_INFO_INDEX_HEAP_SIZE :: u32
  FB_INFO_INDEX_HEAP_FREE :: u32
  NV_OK :: u32
  NV_ERR_NO_MEMORY :: u32

text \<open>
  The labels of one \<open>switch\<close> are pairwise different (the sources would not compile
  otherwise), and the out-of-memory status is not the success status.
\<close>

definition abi_ok :: "nv_abi \<Rightarrow> bool" where
  "abi_ok K \<longleftrightarrow>
     distinct [NV_ESC_RM_VID_HEAP_CONTROL K, NV_ESC_RM_CONTROL K, NV_ESC_RM_FREE K, NV_ESC_RM_ALLOC K] \<and>
     NVOS32_FUNCTION_ALLOC_SIZE K \<noteq> NVOS32_FUNCTION_INFO K \<and>
     distinct [NV01_DEVICE_0 K, NV20_SUBDEVICE_0 K, NV01_MEMORY_LOCAL_USER K] \<and>
     NV2080_CTRL_CMD_FB_GET_INFO K \<noteq> NV2080_CTRL_CMD_FB_GET_INFO_V2 K \<and>
     distinct [FB_INFO_INDEX_TOTAL_RAM_SIZE K, FB_INFO_INDEX_HEAP_SIZE K, FB_INFO_INDEX_HEAP_FREE K] \<and>
     NV_ERR_NO_MEMORY K \<noteq> NV_OK K"

record nvos32_parameters =
  os32_function :: u32
  os32_status :: u32
  os32_total :: u64
  os32_free :: u64
  os32_hMemory :: u32
  os32_size :: u64
  os32_alignment :: u64

record nv_memory_allocation_params =
  map_owner :: u32
  map_size :: u64
  map_alignment :: u64

datatype alloc_parms =
    DeviceParms u32
  | MemoryParms nv_memory_allocation_params
  | OtherParms

record nvos21_parameters =
  os21_hRoot :: u32
  os21_hObjectParent :: u32
  os21_hObjectNew :: u32
  os21_hClass :: u32
  os21_pAllocParms :: alloc_parms
  os21_status :: u32

record nv2080_ctrl_fb_info =
  fbi_index :: u32
  fbi_data :: u32

record fb_get_info_params =
  fbInfoListSize :: u32
  fbInfoList :: "nv2080_ctrl_fb_info list"

datatype ctrl_params =
    FbGetInfo fb_get_info_params
  | FbGetInfoV2 fb_get_info_params
  | OtherCtrl

record nvos54_parameters =
  os54_hObject :: u32
  os54_cmd :: u32
  os54_params :: ctrl_params
  os54_status :: u32

record nvos00_parameters =
  os00_hRoot :: u32
  os00_hObjectParent :: u32
  os00_hObjectOld :: u32
  os00_status :: u32

text \<open>What the \<open>void *\<close> argument of an ioctl points to.\<close>

datatype ioctl_arg =
    Arg32 nvos32_parameters
  | Arg21 nvos21_parameters
  | Arg54 nvos54_parameters
  | Arg00 nvos00_parameters
  | ArgOther

text \<open>The request number and the argument size encoded in a Linux ioctl command.\<close>

definition IOC_NR :: "u32 \<Rightarrow> u32" where
  "IOC_NR cmd = cmd AND 0xFF"

definition IOC_SIZE :: "u32 \<Rightarrow> u32" where
  "IOC_SIZE cmd = drop_bit 16 cmd AND 0x3FFF"

subsection \<open>Before the driver call\<close>

text \<open>The size rounded up as the check computes it, in 64-bit arithmetic.\<close>

definition align_up :: "u64 \<Rightarrow> u64 \<Rightarrow> u64" where
  "align_up sz alignment = (sz + alignment - 1) AND NOT (alignment - 1)"

definition pre_vid_heap_alloc ::
  "nv_abi \<Rightarrow> hook_state \<Rightarrow> nvos32_parameters \<Rightarrow> (int \<times> bool \<times> nvos32_parameters \<times> hook_state) res" where
  "pre_vid_heap_alloc K st pApi =
     (if os32_function pApi = NVOS32_FUNCTION_ALLOC_SIZE K then
        (if os32_alignment pApi \<noteq> 0 then
           let align_size = align_up (os32_size pApi) (os32_alignment pApi) in
           bindR (mutex_lock st) (\<lambda>st.
           bindR (deref (fb_info st)) (\<lambda>fb.
             if free_mem fb < align_size
             then Inr (0, True, pApi\<lparr>os32_status := NV_ERR_NO_MEMORY K,
                    os32_total := total_mem fb, os32_free := free_mem fb\<rparr>, mutex_unlock st)
             else Inr (0, False, pApi, mutex_unlock st)))
         else Inr (0, False, pApi, st))
      else if os32_function pApi = NVOS32_FUNCTION_INFO K then
        bindR (mutex_lock st) (\<lambda>st.
        bindR (deref (fb_info st)) (\<lambda>fb.
          if free_mem fb < 0
          then Inr (0, False, pApi\<lparr>os32_status := NV_ERR_NO_MEMORY K,
                 os32_total := total_mem fb, os32_free := free_mem fb\<rparr>, mutex_unlock st)
          else Inr (0, False, pApi, mutex_unlock st)))
      else Inr (0, False, pApi, st))"

definition pre_rm_alloc ::
  "nv_abi \<Rightarrow> hook_state \<Rightarrow> nvos21_parameters \<Rightarrow> (int \<times> bool \<times> nvos21_parameters \<times> hook_state) res" where
  "pre_rm_alloc K st pApi =
     (if os21_hClass pApi = NV01_MEMORY_LOCAL_USER K then
        (case os21_pAllocParms pApi of
           MemoryParms p \<Rightarrow>
             (if map_alignment p \<noteq> 0 then
                let align_size = align_up (map_size p) (map_alignment p) in
                bindR (mutex_lock st) (\<lambda>st.
                bindR (deref (fb_info st)) (\<lambda>fb.
                  if free_mem fb < align_size
                  then Inr (0, True, pApi\<lparr>os21_status := NV_ERR_NO_MEMORY K\<rparr>, mutex_unlock st)
                  else Inr (0, False, pApi, mutex_unlock st)))
              else Inr (0, False, pApi, st))
         | _ \<Rightarrow> Inl BadLayout)
      else Inr (0, False, pApi, st))"

definition pre_ioctl ::
  "nv_abi \<Rightarrow> hook_state \<Rightarrow> u32 \<Rightarrow> u32 \<Rightarrow> u32 \<Rightarrow> ioctl_arg \<Rightarrow> (int \<times> bool \<times> ioctl_arg \<times> hook_state) res" where
  "pre_ioctl K st maj mnr cmd arg =
     (if IOC_NR cmd = NV_ESC_RM_VID_HEAP_CONTROL K then
        (case arg of
           Arg32 p \<Rightarrow> bindR (pre_vid_heap_alloc K st p) (\<lambda>(r, s, p, st). Inr (r, s, Arg32 p, st))
         | _ \<Rightarrow> Inl BadLayout)
      else if IOC_NR cmd = NV_ESC_RM_ALLOC K then
        (case arg of
           Arg21 p \<Rightarrow> bindR (pre_rm_alloc K st p) (\<lambda>(r, s, p, st). Inr (r, s, Arg21 p, st))
         | _ \<Rightarrow> Inl BadLayout)
      else Inr (0, False, arg, st))"

subsection \<open>After the driver call: tracked objects\<close>

text \<open>
  The argument \<open>m\<close> of a handler that allocates is the address \<open>malloc\<close> returned, or
  \<open>NULL\<close>. The two helpers link a new entry at the front of its list.
\<close>

definition add_rm_entry :: "hook_state \<Rightarrow> addr \<Rightarrow> rm_mem_t \<Rightarrow> hook_state res" where
  "add_rm_entry st m e =
     bindR (deref (list_add (new_cell (m + off_rm_mem) (links st)) (m + off_rm_mem) (rm_mem_list st)))
       (\<lambda>h. Inr (st\<lparr>links := h, rm_ents := (rm_ents st)(m \<mapsto> e)\<rparr>))"

definition add_mem_entry :: "hook_state \<Rightarrow> addr \<Rightarrow> device_mem_t \<Rightarrow> hook_state res" where
  "add_mem_entry st m e =
     bindR (deref (list_add (new_cell (m + off_device_mem) (links st)) (m + off_device_mem) (heap_mem_list st)))
       (\<lambda>h. Inr (st\<lparr>links := h, mem_ents := (mem_ents st)(m \<mapsto> e)\<rparr>))"

definition post_device_rm_alloc :: "hook_state \<Rightarrow> addr \<Rightarrow> nvos21_parameters \<Rightarrow> (int \<times> hook_state) res" where
  "post_device_rm_alloc st m pApi =
     (case os21_pAllocParms pApi of
        DeviceParms device_id \<Rightarrow>
          bindR (mutex_lock st) (\<lambda>st.
            if m = NULL then Inr (- ENOMEM, mutex_unlock st)
            else bindR (add_rm_entry st m \<lparr>rm_object = os21_hObjectNew pApi, rm_device_id = device_id\<rparr>)
              (\<lambda>st. Inr (0, mutex_unlock st)))
      | _ \<Rightarrow> Inl BadLayout)"

text \<open>
  The search loop shared by \<open>post_ctrl_rm_alloc\<close> and the two control handlers: the
  device of the first tracked object with the handle, or -1.
\<close>

definition find_device_body :: "(addr \<rightharpoonup> rm_mem_t) \<Rightarrow> u32 \<Rightarrow> addr \<Rightarrow> u32 \<Rightarrow> (u32 \<times> bool) option" where
  "find_device_body ents handle iter device_id = do {
     entry \<leftarrow> ents (container_of iter off_rm_mem);
     if rm_object entry = handle then Some (rm_device_id entry, True) else Some (device_id, False)
   }"

definition find_device :: "hook_state \<Rightarrow> u32 \<Rightarrow> u32 res" where
  "find_device st handle =
     bindR (deref (list_for_each (rm_mem_list st) (reading (find_device_body (rm_ents st) handle)) (links st, - 1)))
       (\<lambda>(h, device_id). Inr device_id)"

definition post_ctrl_rm_alloc :: "hook_state \<Rightarrow> addr \<Rightarrow> nvos21_parameters \<Rightarrow> (int \<times> hook_state) res" where
  "post_ctrl_rm_alloc st m pApi =
     bindR (mutex_lock st) (\<lambda>st.
     bindR (find_device st (os21_hObjectParent pApi)) (\<lambda>device_id.
       if device_id = - 1 then Inr (0, mutex_unlock st)
       else if m = NULL then Inr (- ENOMEM, mutex_unlock st)
       else bindR (add_rm_entry st m \<lparr>rm_object = os21_hObjectNew pApi, rm_device_id = device_id\<rparr>)
         (\<lambda>st. Inr (0, mutex_unlock st))))"

text \<open>
  The two handlers that charge an allocation. When \<open>malloc\<close> fails they leave through
  the label behind the unlock operation, so the mutex stays locked.
\<close>

definition post_memory_rm_alloc ::
  "nv_abi \<Rightarrow> hook_state \<Rightarrow> addr \<Rightarrow> nvos21_parameters \<Rightarrow> (int \<times> hook_state) res" where
  "post_memory_rm_alloc K st m pApi =
     (if os21_status pApi \<noteq> NV_OK K then Inr (0, st)
      else (case os21_pAllocParms pApi of
        MemoryParms p \<Rightarrow>
          (if map_alignment p = 0 then Inr (0, st)
           else bindR (mutex_lock st) (\<lambda>st.
             if m = NULL then Inr (- ENOMEM, st)
             else bindR (add_mem_entry st m \<lparr>dm_object = map_owner p, dm_size = map_size p\<rparr>) (\<lambda>st.
               bindR (deref (fb_info st)) (\<lambda>fb.
                 Inr (0, mutex_unlock
                   (st\<lparr>fb_info := Some (fb\<lparr>free_mem := free_mem fb - map_size p\<rparr>),
                       alloc_mem := alloc_mem st + map_size p\<rparr>))))))
      | _ \<Rightarrow> Inl BadLayout))"

definition post_rm_alloc ::
  "nv_abi \<Rightarrow> hook_state \<Rightarrow> addr \<Rightarrow> nvos21_parameters \<Rightarrow> (int \<times> hook_state) res" where
  "post_rm_alloc K st m pApi =
     (if os21_hClass pApi = NV01_DEVICE_0 K then post_device_rm_alloc st m pApi
      else if os21_hClass pApi = NV20_SUBDEVICE_0 K then post_ctrl_rm_alloc st m pApi
      else if os21_hClass pApi = NV01_MEMORY_LOCAL_USER K then post_memory_rm_alloc K st m pApi
      else Inr (0, st))"

definition post_vid_heap_alloc ::
  "nv_abi \<Rightarrow> hook_state \<Rightarrow> addr \<Rightarrow> nvos32_parameters \<Rightarrow> (int \<times> nvos32_parameters \<times> hook_state) res" where
  "post_vid_heap_alloc K st m pApi =
     (if os32_status pApi \<noteq> NV_OK K then Inr (0, pApi, st)
      else if os32_alignment pApi = 0 then Inr (0, pApi, st)
      else bindR (mutex_lock st) (\<lambda>st.
        if m = NULL then Inr (- ENOMEM, pApi, st)
        else bindR (add_mem_entry st m \<lparr>dm_object = os32_hMemory pApi, dm_size = os32_size pApi\<rparr>) (\<lambda>st.
          bindR (deref (fb_info st)) (\<lambda>fb.
            let fb = fb\<lparr>free_mem := free_mem fb - os32_size pApi\<rparr> in
            Inr (0, pApi\<lparr>os32_total := total_mem fb, os32_free := free_mem fb\<rparr>, mutex_unlock
              (st\<lparr>fb_info := Some fb, alloc_mem := alloc_mem st + os32_size pApi\<rparr>))))))"

definition post_rm_vid_heap_control ::
  "nv_abi \<Rightarrow> hook_state \<Rightarrow> addr \<Rightarrow> u32 \<Rightarrow> nvos32_parameters \<Rightarrow> (int \<times> nvos32_parameters \<times> hook_state) res" where
  "post_rm_vid_heap_control K st m mnr pApi =
     (if mnr \<noteq> NVIDIA_CTL_MINOR then Inr (- EINVAL, pApi, st)
      else if os32_function pApi = NVOS32_FUNCTION_ALLOC_SIZE K then post_vid_heap_alloc K st m pApi
      else Inr (0, pApi, st))"

subsection \<open>After the driver call: release\<close>

text \<open>
  The loops of the release functions keep the entry they looked at last in the
  variable \<open>entry\<close>, which starts as the null pointer.
\<close>

definition scan_body ::
  "('e \<Rightarrow> u32) \<Rightarrow> u64 \<Rightarrow> (addr \<rightharpoonup> 'e) \<Rightarrow> u32 \<Rightarrow> addr \<Rightarrow> addr \<Rightarrow> (addr \<times> bool) option" where
  "scan_body object off ents page iter entry = do {
     e \<leftarrow> ents (container_of iter off);
     Some (container_of iter off, object e = page)
   }"

definition free_device_page :: "hook_state \<Rightarrow> u32 \<Rightarrow> hook_state res" where
  "free_device_page st page =
     bindR (deref (list_for_each (rm_mem_list st) (reading (scan_body rm_object off_rm_mem (rm_ents st) page)) (links st, NULL)))
       (\<lambda>(h, entry).
         if entry \<noteq> NULL then
           bindR (deref (list_del (links st) (entry + off_rm_mem))) (\<lambda>h.
             Inr (st\<lparr>links := free_cell (entry + off_rm_mem) h, rm_ents := (rm_ents st)(entry := None)\<rparr>))
         else Inr st)"

definition free_heap_page :: "hook_state \<Rightarrow> u32 \<Rightarrow> hook_state res" where
  "free_heap_page st page =
     bindR (deref (list_for_each (heap_mem_list st) (reading (scan_body dm_object off_device_mem (mem_ents st) page)) (links st, NULL)))
       (\<lambda>(h, entry).
         if entry \<noteq> NULL then
           bindR (deref (mem_ents st entry)) (\<lambda>e.
           bindR (deref (fb_info st)) (\<lambda>fb.
           bindR (deref (list_del (links st) (entry + off_device_mem))) (\<lambda>h.
             Inr (st\<lparr>fb_info := Some (fb\<lparr>free_mem := free_mem fb + dm_size e\<rparr>),
                    alloc_mem := alloc_mem st - dm_size e,
                    links := free_cell (entry + off_device_mem) h,
                    mem_ents := (mem_ents st)(entry := None)\<rparr>))))
         else Inr st)"

definition post_rm_free :: "nv_abi \<Rightarrow> hook_state \<Rightarrow> u32 \<Rightarrow> nvos00_parameters \<Rightarrow> (int \<times> hook_state) res" where
  "post_rm_free K st mnr pApi =
     (if mnr \<noteq> NVIDIA_CTL_MINOR then Inr (- EINVAL, st)
      else if os00_status pApi \<noteq> NV_OK K then Inr (0, st)
      else if os00_hObjectOld pApi = os00_hRoot pApi then Inr (0, st)
      else bindR (mutex_lock st) (\<lambda>st.
        bindR (if os00_hRoot pApi = os00_hObjectParent pApi
               then free_device_page st (os00_hObjectOld pApi)
               else free_heap_page st (os00_hObjectOld pApi)) (\<lambda>st.
          Inr (0, mutex_unlock st))))"

end
