(* ===== verification/Ioctl_Ledger.thy ===== *)
theory Ioctl_Ledger
  imports Ioctl_Hook
begin

text \<open>
  What the linked lists of tracked objects mean. A list of entries is abstracted to the
  sequence of its records, newest first; the state of the library is abstracted to a
  ledger: the budget, the free and the charged bytes, the charged blocks and the known
  device objects. The interface that both lists offer to the handlers is the locale
  \<open>tracked_list\<close>, interpreted on the heap-memory list and on the resource-manager list.
\<close>

subsection \<open>A list of entries in the heap\<close>

definition entries ::
  "u64 \<Rightarrow> heap \<Rightarrow> (addr \<rightharpoonup> 'e) \<Rightarrow> addr \<Rightarrow> addr list \<Rightarrow> 'e list \<Rightarrow> bool" where
  "entries off h ents head as es \<longleftrightarrow>
     dlist h head (map (\<lambda>a. a + off) as) \<and> map ents as = map Some es \<and> NULL \<notin> set as"

text \<open>The cells of the list, its head included.\<close>

definition entry_cells :: "u64 \<Rightarrow> addr \<Rightarrow> addr list \<Rightarrow> addr set" where
  "entry_cells off head as = cells head (map (\<lambda>a. a + off) as)"

text \<open>
  The entry a release takes away: the first one that matches, and the last one of the
  list when none does.
\<close>

fun take_entry :: "('e \<Rightarrow> bool) \<Rightarrow> 'e list \<Rightarrow> ('e \<times> 'e list) option" where
  "take_entry P [] = None"
| "take_entry P [x] = Some (x, [])"
| "take_entry P (x # y # ys) =
     (if P x then Some (x, y # ys) else map_option (\<lambda>(e, r). (e, x # r)) (take_entry P (y # ys)))"

definition drop_entry :: "('e \<Rightarrow> bool) \<Rightarrow> 'e list \<Rightarrow> 'e list" where
  "drop_entry P es = (case take_entry P es of None \<Rightarrow> [] | Some (e, r) \<Rightarrow> r)"

lemma take_entry_None [simp]: "take_entry P es = None \<longleftrightarrow> es = []"
  by (induction P es rule: take_entry.induct) auto

lemma take_entry_first:
  assumes "\<forall>x \<in> set xs. \<not> P x" "P e"
  shows "take_entry P (xs @ e # ys) = Some (e, xs @ ys)"
  using assms
proof (induction xs)
  case Nil
  then show ?case by (cases ys) auto
next
  case (Cons x xs)
  then show ?case by (cases "xs @ e # ys") auto
qed

lemma take_entry_last:
  assumes "\<forall>x \<in> set (xs @ [e]). \<not> P x"
  shows "take_entry P (xs @ [e]) = Some (e, xs)"
  using assms
proof (induction xs)
  case (Cons x xs)
  then show ?case by (cases "xs @ [e]") auto
qed simp

lemma take_entry_split:
  assumes "take_entry P es = Some (e, r)"
  shows "\<exists>xs ys. es = xs @ e # ys \<and> r = xs @ ys"
  using assms
proof (induction P es arbitrary: e r rule: take_entry.induct)
  case (3 P x y ys)
  show ?case
  proof (cases "P x")
    case True
    with 3 show ?thesis by (metis append_Nil option.inject prod.inject take_entry.simps(3))
  next
    case False
    then obtain r' where r': "take_entry P (y # ys) = Some (e, r')" "r = x # r'"
      using "3.prems" by auto
    from "3.IH" [OF False r'(1)] obtain us vs where "y # ys = us @ e # vs" "r' = us @ vs" by blast
    then have "x # y # ys = (x # us) @ e # vs" "r = (x # us) @ vs" using r'(2) by auto
    then show ?thesis by blast
  qed
qed auto

subsection \<open>The scan of the release functions\<close>

fun pick :: "('e \<Rightarrow> bool) \<Rightarrow> addr list \<Rightarrow> 'e list \<Rightarrow> addr \<Rightarrow> addr" where
  "pick P (a # as) (e # es) p = (if P e then a else pick P as es a)"
| "pick P _ _ p = p"

lemma container_of_node [simp]: "container_of (a + off) off = a"
  by (simp add: container_of_def)

lemma run_scan:
  assumes "map ents as = map Some es"
  shows "run_body (scan_body object off ents page) (map (\<lambda>a. a + off) as) p =
    Some (pick (\<lambda>e. object e = page) as es p)"
  using assms
proof (induction as arbitrary: es p)
  case (Cons a as)
  then show ?case by (cases es) (auto simp: scan_body_def)
qed simp

lemma pick_take_entry:
  assumes "length as = length es" "take_entry P es = Some (e, r)"
  shows "\<exists>as1 as2 es1 es2. as = as1 @ pick P as es p # as2 \<and> es = es1 @ e # es2 \<and>
    r = es1 @ es2 \<and> length as1 = length es1"
  using assms
proof (induction P es arbitrary: as e r p rule: take_entry.induct)
  case (2 P x)
  then obtain a where "as = [a]" by (cases as) auto
  with 2 show ?case by auto
next
  case (3 P x y ys)
  then obtain a as' where as: "as = a # as'" "length as' = length (y # ys)" by (cases as) auto
  show ?case
  proof (cases "P x")
    case True
    with 3 as show ?thesis by (intro exI [of _ "[]"] exI [of _ as'] exI [of _ "[]"] exI [of _ "y # ys"]) auto
  next
    case False
    then obtain r' where r': "take_entry P (y # ys) = Some (e, r')" "r = x # r'"
      using "3.prems" by auto
    from "3.IH" [OF False as(2) r'(1), of a] obtain as1 as2 es1 es2 where
      "as' = as1 @ pick P as' (y # ys) a # as2" "y # ys = es1 @ e # es2" "r' = es1 @ es2" "length as1 = length es1"
      by blast
    with False as r' show ?thesis
      by (intro exI [of _ "a # as1"] exI [of _ as2] exI [of _ "x # es1"] exI [of _ es2]) auto
  qed
qed simp

lemma entries_scan:
  assumes "entries off h ents head as es"
  shows "list_for_each head (reading (scan_body object off ents page)) (h, NULL) =
    Some (h, pick (\<lambda>e. object e = page) as es NULL)"
proof -
  have "dlist h head (map (\<lambda>a. a + off) as)" "map ents as = map Some es"
    using assms by (auto simp: entries_def)
  then show ?thesis by (simp only: list_for_each_dlist run_scan option.map)
qed

subsection \<open>Insertion and removal of entries\<close>

lemma entries_length: "entries off h ents head as es \<Longrightarrow> length as = length es"
  unfolding entries_def by (metis length_map)

lemma entries_fresh:
  assumes "entries off h ents head as es" "m + off \<notin> dom h"
  shows "m + off \<notin> entry_cells off head as" "m \<notin> set as"
  using assms dlist_dom [of h head "map (\<lambda>a. a + off) as"]
  by (auto simp: entries_def entry_cells_def cells_def)

lemma entries_frame:
  assumes "entries off h ents head as es"
    and "\<And>a. a \<in> entry_cells off head as \<Longrightarrow> h' a = h a" "\<And>a. a \<in> set as \<Longrightarrow> ents' a = ents a"
  shows "entries off h' ents' head as es"
proof -
  have "map ents' as = map ents as" using assms(3) by simp
  also have "\<dots> = map Some es" using assms(1) by (simp add: entries_def)
  finally have "map ents' as = map Some es" .
  moreover have "dlist h' head (map (\<lambda>a. a + off) as)"
    using assms(1,2) by (rule_tac dlist_frame [of h]) (auto simp: entries_def entry_cells_def)
  ultimately show ?thesis using assms(1) by (simp add: entries_def)
qed

lemma entries_add:
  assumes ent: "entries off h ents head as es" and m: "m \<noteq> NULL" "m + off \<notin> dom h"
  obtains h' where "list_add (new_cell (m + off) h) (m + off) head = Some h'"
    "entries off h' (ents(m \<mapsto> e)) head (m # as) (e # es)"
    "\<And>a. a \<notin> entry_cells off head (m # as) \<Longrightarrow> h' a = h a"
    "dom h' = insert (m + off) (dom h)"
proof -
  let ?h = "new_cell (m + off) h" and ?xs = "map (\<lambda>a. a + off) as"
  have out: "m + off \<notin> cells head ?xs" "m \<notin> set as"
    using entries_fresh [OF ent m(2)] by (auto simp: entry_cells_def)
  have "dlist ?h head ?xs"
    using ent out by (rule_tac dlist_frame [of h]) (auto simp: entries_def new_cell_def)
  then obtain h' where h': "list_add ?h (m + off) head = Some h'" "dlist h' head ((m + off) # ?xs)"
    "framed (cells head ((m + off) # ?xs)) ?h h'"
    using list_add_dlist [of ?h head ?xs "m + off"] out by (auto simp: new_cell_def)
  moreover have "map (ents(m \<mapsto> e)) (m # as) = map Some (e # es)"
    using ent out(2) by (simp add: entries_def)
  ultimately have "entries off h' (ents(m \<mapsto> e)) head (m # as) (e # es)"
    using ent m(1) by (simp add: entries_def)
  moreover have "h' a = h a" if "a \<notin> entry_cells off head (m # as)" for a
    using framed_outside [OF h'(3), of a] that by (auto simp: entry_cells_def new_cell_def cells_def)
  moreover have "dom h' = insert (m + off) (dom h)"
    using framed_dom [OF h'(3)] by (simp add: new_cell_def)
  ultimately show thesis using h'(1) by (intro that)
qed

lemma entries_del:
  assumes ent: "entries off h ents head (as1 @ a # as2) (es1 @ e # es2)" and len: "length as1 = length es1"
  obtains h' where "list_del h (a + off) = Some h'" "ents a = Some e"
    "entries off (free_cell (a + off) h') (ents(a := None)) head (as1 @ as2) (es1 @ es2)"
    "\<And>b. b \<notin> entry_cells off head (as1 @ a # as2) \<Longrightarrow> free_cell (a + off) h' b = h b"
    "dom (free_cell (a + off) h') = dom h - {a + off}"
proof -
  let ?f = "\<lambda>a. a + off"
  have ring: "dlist h head (map ?f as1 @ ?f a # map ?f as2)" using ent by (simp add: entries_def)
  obtain h' where h': "list_del h (a + off) = Some h'" "dlist h' head (map ?f as1 @ map ?f as2)"
    "framed (cells head (map ?f as1 @ ?f a # map ?f as2)) h h'"
    using list_del_dlist [OF ring] by metis
  have maps: "map ents as1 = map Some es1" "ents a = Some e" "map ents as2 = map Some es2"
    using ent len by (auto simp: entries_def)
  have out: "a + off \<notin> cells head (map ?f as1 @ map ?f as2)" "a \<notin> set as1" "a \<notin> set as2"
    using ring by (auto simp: dlist_def cells_def)
  have "dlist (free_cell (a + off) h') head (map ?f (as1 @ as2))"
    using h'(2) out(1) by (rule_tac dlist_frame [of h']) (auto simp: free_cell_def)
  moreover have "map (ents(a := None)) as1 = map ents as1" "map (ents(a := None)) as2 = map ents as2"
    using out by simp_all
  ultimately have "entries off (free_cell (a + off) h') (ents(a := None)) head (as1 @ as2) (es1 @ es2)"
    using ent maps by (simp add: entries_def)
  moreover have "free_cell (a + off) h' b = h b" if "b \<notin> entry_cells off head (as1 @ a # as2)" for b
    using framed_outside [OF h'(3), of b] that by (auto simp: entry_cells_def free_cell_def cells_def)
  moreover have "dom (free_cell (a + off) h') = dom h - {a + off}"
    using framed_dom [OF h'(3)] by (simp add: free_cell_def)
  ultimately show thesis using h'(1) maps(2) by (intro that)
qed

subsection \<open>The two lists of the library\<close>

definition wf_state :: "hook_state \<Rightarrow> device_mem_t list \<Rightarrow> rm_mem_t list \<Rightarrow> bool" where
  "wf_state st bs ds \<longleftrightarrow> (\<exists>as cs.
     entries off_device_mem (links st) (mem_ents st) (heap_mem_list st) as bs \<and>
     entries off_rm_mem (links st) (rm_ents st) (rm_mem_list st) cs ds \<and>
     entry_cells off_device_mem (heap_mem_list st) as \<inter> entry_cells off_rm_mem (rm_mem_list st) cs = {})"

text \<open>What \<open>malloc\<close> promises about a non-null result: no live cell overlaps the block.\<close>

definition fresh_block :: "hook_state \<Rightarrow> addr \<Rightarrow> bool" where
  "fresh_block st m \<longleftrightarrow>
     m \<noteq> NULL \<and> m + off_device_mem \<notin> dom (links st) \<and> m + off_rm_mem \<notin> dom (links st)"

lemma wf_state_update [simp]:
  "wf_state (st\<lparr>mu := b\<rparr>) bs ds = wf_state st bs ds"
  "wf_state (st\<lparr>fb_info := f\<rparr>) bs ds = wf_state st bs ds"
  "wf_state (st\<lparr>alloc_mem := n\<rparr>) bs ds = wf_state st bs ds"
  "wf_state (st\<lparr>fb_info := f, alloc_mem := n, links := h, mem_ents := me\<rparr>) bs ds =
    wf_state (st\<lparr>links := h, mem_ents := me\<rparr>) bs ds"
  by (simp_all add: wf_state_def)

lemma fresh_block_update [simp]:
  "fresh_block (st\<lparr>mu := b\<rparr>) m = fresh_block st m"
  "fresh_block (st\<lparr>fb_info := f\<rparr>) m = fresh_block st m"
  "fresh_block (st\<lparr>alloc_mem := n\<rparr>) m = fresh_block st m"
  by (simp_all add: fresh_block_def)

lemma entry_cells_Cons: "entry_cells off head (a # as) = insert (a + off) (entry_cells off head as)"
  by (auto simp: entry_cells_def cells_def)

lemma entries_cells_dom: "entries off h ents head as es \<Longrightarrow> entry_cells off head as \<subseteq> dom h"
  using dlist_dom by (simp add: entries_def entry_cells_def)

lemma add_mem_entry_effect:
  assumes wf: "wf_state st bs ds" and m: "fresh_block st m"
  shows "\<exists>h'. add_mem_entry st m e = Inr (st\<lparr>links := h', mem_ents := (mem_ents st)(m \<mapsto> e)\<rparr>) \<and>
    wf_state (st\<lparr>links := h', mem_ents := (mem_ents st)(m \<mapsto> e)\<rparr>) (e # bs) ds"
proof -
  obtain as cs where A: "entries off_device_mem (links st) (mem_ents st) (heap_mem_list st) as bs"
    and C: "entries off_rm_mem (links st) (rm_ents st) (rm_mem_list st) cs ds"
    and dis: "entry_cells off_device_mem (heap_mem_list st) as \<inter> entry_cells off_rm_mem (rm_mem_list st) cs = {}"
    using wf by (auto simp: wf_state_def)
  have m': "m \<noteq> NULL" "m + off_device_mem \<notin> dom (links st)" using m by (auto simp: fresh_block_def)
  obtain h' where h': "list_add (new_cell (m + off_device_mem) (links st)) (m + off_device_mem) (heap_mem_list st) = Some h'"
    "entries off_device_mem h' ((mem_ents st)(m \<mapsto> e)) (heap_mem_list st) (m # as) (e # bs)"
    "\<And>a. a \<notin> entry_cells off_device_mem (heap_mem_list st) (m # as) \<Longrightarrow> h' a = links st a"
    using entries_add [OF A m'] by metis
  have dis': "entry_cells off_device_mem (heap_mem_list st) (m # as) \<inter> entry_cells off_rm_mem (rm_mem_list st) cs = {}"
    using dis entries_cells_dom [OF C] m'(2) by (auto simp: entry_cells_Cons)
  then have "entries off_rm_mem h' (rm_ents st) (rm_mem_list st) cs ds"
    using h'(3) by (intro entries_frame [OF C]) auto
  with h'(2) dis' show ?thesis
    using h'(1) by (auto simp: wf_state_def add_mem_entry_def)
qed

lemma add_rm_entry_effect:
  assumes wf: "wf_state st bs ds" and m: "fresh_block st m"
  shows "\<exists>h'. add_rm_entry st m e = Inr (st\<lparr>links := h', rm_ents := (rm_ents st)(m \<mapsto> e)\<rparr>) \<and>
    wf_state (st\<lparr>links := h', rm_ents := (rm_ents st)(m \<mapsto> e)\<rparr>) bs (e # ds)"
proof -
  obtain as cs where A: "entries off_device_mem (links st) (mem_ents st) (heap_mem_list st) as bs"
    and C: "entries off_rm_mem (links st) (rm_ents st) (rm_mem_list st) cs ds"
    and dis: "entry_cells off_device_mem (heap_mem_list st) as \<inter> entry_cells off_rm_mem (rm_mem_list st) cs = {}"
    using wf by (auto simp: wf_state_def)
  have m': "m \<noteq> NULL" "m + off_rm_mem \<notin> dom (links st)" using m by (auto simp: fresh_block_def)
  obtain h' where h': "list_add (new_cell (m + off_rm_mem) (links st)) (m + off_rm_mem) (rm_mem_list st) = Some h'"
    "entries off_rm_mem h' ((rm_ents st)(m \<mapsto> e)) (rm_mem_list st) (m # cs) (e # ds)"
    "\<And>a. a \<notin> entry_cells off_rm_mem (rm_mem_list st) (m # cs) \<Longrightarrow> h' a = links st a"
    using entries_add [OF C m'] by metis
  have dis': "entry_cells off_device_mem (heap_mem_list st) as \<inter> entry_cells off_rm_mem (rm_mem_list st) (m # cs) = {}"
    using dis entries_cells_dom [OF A] m'(2) by (auto simp: entry_cells_Cons)
  then have "entries off_device_mem h' (mem_ents st) (heap_mem_list st) as bs"
    using h'(3) by (intro entries_frame [OF A]) auto
  with h'(2) dis' show ?thesis
    using h'(1) by (auto simp: wf_state_def add_rm_entry_def)
qed

lemma entry_cells_append:
  "entry_cells off head (as @ a # bs) = insert (a + off) (entry_cells off head (as @ bs))"
  by (auto simp: entry_cells_def cells_def)

lemma free_heap_page_effect:
  assumes wf: "wf_state st bs ds" and fb: "fb_info st = Some fb"
    and take: "take_entry (\<lambda>e. dm_object e = page) bs = Some (e, r)"
  shows "\<exists>h' a. free_heap_page st page = Inr (st\<lparr>fb_info := Some (fb\<lparr>free_mem := free_mem fb + dm_size e\<rparr>),
      alloc_mem := alloc_mem st - dm_size e, links := h', mem_ents := (mem_ents st)(a := None)\<rparr>) \<and>
    wf_state (st\<lparr>links := h', mem_ents := (mem_ents st)(a := None)\<rparr>) r ds"
proof -
  obtain as cs where A: "entries off_device_mem (links st) (mem_ents st) (heap_mem_list st) as bs"
    and C: "entries off_rm_mem (links st) (rm_ents st) (rm_mem_list st) cs ds"
    and dis: "entry_cells off_device_mem (heap_mem_list st) as \<inter> entry_cells off_rm_mem (rm_mem_list st) cs = {}"
    using wf by (auto simp: wf_state_def)
  define a where "a = pick (\<lambda>e. dm_object e = page) as bs NULL"
  obtain as1 as2 bs1 bs2 where sp: "as = as1 @ a # as2" "bs = bs1 @ e # bs2" "r = bs1 @ bs2" "length as1 = length bs1"
    using pick_take_entry [OF entries_length [OF A] take] unfolding a_def by blast
  have A': "entries off_device_mem (links st) (mem_ents st) (heap_mem_list st) (as1 @ a # as2) (bs1 @ e # bs2)"
    using A sp by simp
  obtain h1 where h1: "list_del (links st) (a + off_device_mem) = Some h1" "mem_ents st a = Some e"
    "entries off_device_mem (free_cell (a + off_device_mem) h1) ((mem_ents st)(a := None)) (heap_mem_list st)
      (as1 @ as2) (bs1 @ bs2)"
    "\<And>b. b \<notin> entry_cells off_device_mem (heap_mem_list st) (as1 @ a # as2) \<Longrightarrow>
      free_cell (a + off_device_mem) h1 b = links st b"
    using entries_del [OF A' sp(4)] by metis
  have "entries off_rm_mem (free_cell (a + off_device_mem) h1) (rm_ents st) (rm_mem_list st) cs ds"
    using h1(4) dis sp(1) by (intro entries_frame [OF C]) auto
  then have "wf_state (st\<lparr>links := free_cell (a + off_device_mem) h1, mem_ents := (mem_ents st)(a := None)\<rparr>) r ds"
    using h1(3) sp dis by (auto simp: wf_state_def entry_cells_append)
  moreover have "a \<noteq> NULL" using A' by (auto simp: entries_def)
  ultimately show ?thesis
    using entries_scan [OF A, of dm_object page] h1(1,2) fb
    by (auto simp: free_heap_page_def a_def [symmetric])
qed

lemma free_heap_page_empty:
  assumes wf: "wf_state st [] ds"
  shows "free_heap_page st page = Inr st"
proof -
  obtain as where A: "entries off_device_mem (links st) (mem_ents st) (heap_mem_list st) as []"
    using wf by (auto simp: wf_state_def)
  then show ?thesis
    using entries_scan [OF A, of dm_object page] entries_length [OF A] by (simp add: free_heap_page_def)
qed

lemma free_device_page_effect:
  assumes wf: "wf_state st bs ds" and take: "take_entry (\<lambda>e. rm_object e = page) ds = Some (e, r)"
  shows "\<exists>h' a. free_device_page st page = Inr (st\<lparr>links := h', rm_ents := (rm_ents st)(a := None)\<rparr>) \<and>
    wf_state (st\<lparr>links := h', rm_ents := (rm_ents st)(a := None)\<rparr>) bs r"
proof -
  obtain as cs where A: "entries off_device_mem (links st) (mem_ents st) (heap_mem_list st) as bs"
    and C: "entries off_rm_mem (links st) (rm_ents st) (rm_mem_list st) cs ds"
    and dis: "entry_cells off_device_mem (heap_mem_list st) as \<inter> entry_cells off_rm_mem (rm_mem_list st) cs = {}"
    using wf by (auto simp: wf_state_def)
  define a where "a = pick (\<lambda>e. rm_object e = page) cs ds NULL"
  obtain cs1 cs2 ds1 ds2 where sp: "cs = cs1 @ a # cs2" "ds = ds1 @ e # ds2" "r = ds1 @ ds2" "length cs1 = length ds1"
    using pick_take_entry [OF entries_length [OF C] take] unfolding a_def by blast
  have C': "entries off_rm_mem (links st) (rm_ents st) (rm_mem_list st) (cs1 @ a # cs2) (ds1 @ e # ds2)"
    using C sp by simp
  obtain h1 where h1: "list_del (links st) (a + off_rm_mem) = Some h1" "rm_ents st a = Some e"
    "entries off_rm_mem (free_cell (a + off_rm_mem) h1) ((rm_ents st)(a := None)) (rm_mem_list st)
      (cs1 @ cs2) (ds1 @ ds2)"
    "\<And>b. b \<notin> entry_cells off_rm_mem (rm_mem_list st) (cs1 @ a # cs2) \<Longrightarrow>
      free_cell (a + off_rm_mem) h1 b = links st b"
    using entries_del [OF C' sp(4)] by metis
  have "entries off_device_mem (free_cell (a + off_rm_mem) h1) (mem_ents st) (heap_mem_list st) as bs"
    using h1(4) dis sp(1) by (intro entries_frame [OF A]) auto
  then have "wf_state (st\<lparr>links := free_cell (a + off_rm_mem) h1, rm_ents := (rm_ents st)(a := None)\<rparr>) bs r"
    using h1(3) sp dis by (auto simp: wf_state_def entry_cells_append)
  moreover have "a \<noteq> NULL" using C' by (auto simp: entries_def)
  ultimately show ?thesis
    using entries_scan [OF C, of rm_object page] h1(1)
    by (auto simp: free_device_page_def a_def [symmetric])
qed

lemma free_device_page_empty:
  assumes wf: "wf_state st bs []"
  shows "free_device_page st page = Inr st"
proof -
  obtain cs where C: "entries off_rm_mem (links st) (rm_ents st) (rm_mem_list st) cs []"
    using wf by (auto simp: wf_state_def)
  then show ?thesis
    using entries_scan [OF C, of rm_object page] entries_length [OF C] by (simp add: free_device_page_def)
qed

text \<open>The search for a device returns the newest tracked object with the handle.\<close>

definition device_of :: "rm_mem_t list \<Rightarrow> u32 \<Rightarrow> u32" where
  "device_of ds handle =
     (case find (\<lambda>e. rm_object e = handle) ds of None \<Rightarrow> - 1 | Some e \<Rightarrow> rm_device_id e)"

lemma run_find_device:
  assumes "map ents cs = map Some ds"
  shows "run_body (find_device_body ents handle) (map (\<lambda>a. a + off_rm_mem) cs) d =
    Some (case find (\<lambda>e. rm_object e = handle) ds of None \<Rightarrow> d | Some e \<Rightarrow> rm_device_id e)"
  using assms
proof (induction cs arbitrary: ds d)
  case (Cons c cs)
  then show ?case by (cases ds) (auto simp: find_device_body_def)
qed simp

lemma find_device_wf:
  assumes "wf_state st bs ds"
  shows "find_device st handle = Inr (device_of ds handle)"
proof -
  obtain cs where C: "dlist (links st) (rm_mem_list st) (map (\<lambda>a. a + off_rm_mem) cs)"
    "map (rm_ents st) cs = map Some ds"
    using assms by (auto simp: wf_state_def entries_def)
  show ?thesis
    unfolding find_device_def list_for_each_dlist [OF C(1)] run_find_device [OF C(2)]
    by (simp add: device_of_def)
qed

subsection \<open>The interface of a tracked list\<close>

text \<open>
  What the handlers rely on: adding puts the record in front, releasing a handle takes
  away what \<open>take_entry\<close> says, and neither fails on a well-formed list.
\<close>

fun release_all :: "('s \<Rightarrow> u32 \<Rightarrow> 's res) \<Rightarrow> 's \<Rightarrow> u32 list \<Rightarrow> 's res" where
  "release_all rel s [] = Inr s"
| "release_all rel s (k # ks) = bindR (rel s k) (\<lambda>s. release_all rel s ks)"

locale tracked_list =
  fixes holds :: "'s \<Rightarrow> 'e list \<Rightarrow> bool"
    and add :: "'s \<Rightarrow> addr \<Rightarrow> 'e \<Rightarrow> 's res"
    and release :: "'s \<Rightarrow> u32 \<Rightarrow> 's res"
    and object :: "'e \<Rightarrow> u32"
    and fresh :: "'s \<Rightarrow> addr \<Rightarrow> bool"
  assumes add_holds: "holds s es \<Longrightarrow> fresh s m \<Longrightarrow> \<exists>s'. add s m e = Inr s' \<and> holds s' (e # es)"
    and release_holds: "holds s es \<Longrightarrow>
      \<exists>s'. release s k = Inr s' \<and> holds s' (drop_entry (\<lambda>e. object e = k) es)"
begin

lemma add_then_release:
  assumes "holds s es" "fresh s m"
  shows "\<exists>s1 s2. add s m e = Inr s1 \<and> release s1 (object e) = Inr s2 \<and> holds s2 es"
proof -
  obtain s1 where s1: "add s m e = Inr s1" "holds s1 (e # es)"
    using add_holds [OF assms] by blast
  have "drop_entry (\<lambda>x. object x = object e) (e # es) = es"
    using take_entry_first [of "[]" "\<lambda>x. object x = object e" e es] by (simp add: drop_entry_def)
  with release_holds [OF s1(2), of "object e"] s1(1) show ?thesis by auto
qed

lemma release_tracked:
  assumes "holds s (xs @ e # ys)" "\<forall>x \<in> set xs. object x \<noteq> object e"
  shows "\<exists>s'. release s (object e) = Inr s' \<and> holds s' (xs @ ys)"
  using release_holds [OF assms(1), of "object e"]
    take_entry_first [of xs "\<lambda>x. object x = object e" e ys] assms(2)
  by (simp add: drop_entry_def)

lemma release_untracked:
  assumes "holds s (xs @ [e])" "k \<notin> object ` set (xs @ [e])"
  shows "\<exists>s'. release s k = Inr s' \<and> holds s' xs"
  using release_holds [OF assms(1), of k] take_entry_last [of xs e "\<lambda>x. object x = k"] assms(2)
  by (force simp: drop_entry_def)

text \<open>Handles that are pairwise different can be released in any order.\<close>

lemma release_all_tracked:
  assumes "holds s es" "distinct (map object es)" "set ks = object ` set es" "distinct ks"
  shows "\<exists>s'. release_all release s ks = Inr s' \<and> holds s' []"
  using assms
proof (induction ks arbitrary: s es)
  case Nil
  then show ?case by auto
next
  case (Cons k ks)
  have "k \<in> object ` set es" using Cons.prems(3) by (metis list.set_intros(1))
  then obtain e where e: "e \<in> set es" "object e = k" by auto
  then obtain xs ys where es: "es = xs @ e # ys" by (meson split_list)
  have dis: "distinct (map object (xs @ ys))" "k \<notin> object ` set (xs @ ys)"
    using Cons.prems(2) es e(2) by auto
  have "\<forall>x \<in> set xs. object x \<noteq> object e" using dis(2) e(2) by (metis UnI1 imageI set_append)
  then obtain s1 where s1: "release s k = Inr s1" "holds s1 (xs @ ys)"
    using release_tracked [of s xs e ys] Cons.prems(1) es e(2) by auto
  have "insert k (set ks) = insert k (object ` set (xs @ ys))" "k \<notin> set ks"
    using Cons.prems(3,4) es e(2) by auto
  then have "set ks = object ` set (xs @ ys)" using dis(2) by (rule insert_ident [THEN iffD1, rotated -1])
  with Cons.IH [OF s1(2) dis(1)] Cons.prems(4) s1(1) show ?case by auto
qed

end

text \<open>Both lists of the library implement the interface; the other list does not move.\<close>

definition mem_holds :: "rm_mem_t list \<Rightarrow> hook_state \<Rightarrow> device_mem_t list \<Rightarrow> bool" where
  "mem_holds ds st bs \<longleftrightarrow> wf_state st bs ds \<and> fb_info st \<noteq> None"

definition rm_holds :: "device_mem_t list \<Rightarrow> hook_state \<Rightarrow> rm_mem_t list \<Rightarrow> bool" where
  "rm_holds bs st ds \<longleftrightarrow> wf_state st bs ds"

interpretation mem: tracked_list "mem_holds ds" add_mem_entry free_heap_page dm_object fresh_block
  for ds
proof
  fix s es m e
  assume "mem_holds ds s es" "fresh_block s m"
  then show "\<exists>s'. add_mem_entry s m e = Inr s' \<and> mem_holds ds s' (e # es)"
    using add_mem_entry_effect [of s es ds m e] by (auto simp: mem_holds_def)
next
  fix s es k
  assume h: "mem_holds ds s es"
  then obtain fb where fb: "fb_info s = Some fb" "wf_state s es ds" by (auto simp: mem_holds_def)
  show "\<exists>s'. free_heap_page s k = Inr s' \<and> mem_holds ds s' (drop_entry (\<lambda>e. dm_object e = k) es)"
  proof (cases "take_entry (\<lambda>e. dm_object e = k) es")
    case None
    then show ?thesis using free_heap_page_empty h fb by (auto simp: drop_entry_def)
  next
    case (Some er)
    then show ?thesis
      using free_heap_page_effect [OF fb(2,1), of k "fst er" "snd er"]
      by (auto simp: drop_entry_def mem_holds_def case_prod_unfold)
  qed
qed

interpretation rm: tracked_list "rm_holds bs" add_rm_entry free_device_page rm_object fresh_block
  for bs
proof
  fix s es m e
  assume "rm_holds bs s es" "fresh_block s m"
  then show "\<exists>s'. add_rm_entry s m e = Inr s' \<and> rm_holds bs s' (e # es)"
    using add_rm_entry_effect [of s bs es m e] by (auto simp: rm_holds_def)
next
  fix s es k
  assume h: "rm_holds bs s es"
  show "\<exists>s'. free_device_page s k = Inr s' \<and> rm_holds bs s' (drop_entry (\<lambda>e. rm_object e = k) es)"
  proof (cases "take_entry (\<lambda>e. rm_object e = k) es")
    case None
    then show ?thesis using free_device_page_empty h by (auto simp: drop_entry_def rm_holds_def)
  next
    case (Some er)
    then show ?thesis
      using free_device_page_effect [of s bs es k "fst er" "snd er"] h
      by (auto simp: drop_entry_def rm_holds_def case_prod_unfold)
  qed
qed

end
