(* ===== verification/Ioctl_Control.thy ===== *)
theory Ioctl_Control
  imports Util Ioctl_Ledger
begin

text \<open>
  The rest of the request handlers of \<^verbatim>\<open>src/ioctl_hook.c\<close>: the memory queries, which
  replace the sizes the driver reports by those of the budget of the object's device, and
  the dispatcher \<open>post_ioctl\<close>. The budget of a device is looked up in its shared-memory
  object; what the system calls on that object answer is the argument \<open>env\<close>, one record
  per object name.
\<close>

subsection \<open>The budget of another device\<close>

record fb_env =
  fbe_calls :: shm_calls
  fbe_content :: fb_info_t
  fbe_readlink :: int

definition zero_fb :: fb_info_t where
  "zero_fb = \<lparr>pid = 0, total_mem = 0, free_mem = 0\<rparr>"

text \<open>
  The common exit reads the two fields of the local \<open>share_data_t\<close>, which is not
  initialised, before it unmaps and closes.
\<close>

definition fb_cleanup :: "share_data_t \<Rightarrow> 'a \<Rightarrow> 'a res" where
  "fb_cleanup sd r =
     (case sd_addr sd of
        None \<Rightarrow> Inl UninitRead
      | Some _ \<Rightarrow> (case sd_fd sd of None \<Rightarrow> Inl UninitRead | Some _ \<Rightarrow> Inr r))"

definition get_fb_info :: "(string \<Rightarrow> fb_env) \<Rightarrow> u32 \<Rightarrow> (u64 \<times> u64) res" where
  "get_fb_info env device_id =
     (let e = env (fb_shm_path device_id) in
      case create_shm_addr (fbe_calls e) \<lparr>sd_fd = None, sd_addr = None\<rparr> of (a, sd, zeroed) \<Rightarrow>
        if a = NULL then fb_cleanup sd (0, - 1)
        else if a = MAP_FAILED then Inl BadAccess
        else let fb = (if zeroed then zero_fb else fbe_content e) in
          if pid fb = 0 then fb_cleanup sd (0, - 1)
          else fb_cleanup sd (drop_bit 10 (total_mem fb),
            if fbe_readlink e = 0 then drop_bit 10 (free_mem fb) else - 1))"

subsection \<open>Memory queries\<close>

definition fb_switch :: "nv_abi \<Rightarrow> u64 \<Rightarrow> u64 \<Rightarrow> nv2080_ctrl_fb_info \<Rightarrow> nv2080_ctrl_fb_info" where
  "fb_switch K tot fre info =
     (if fbi_index info = FB_INFO_INDEX_TOTAL_RAM_SIZE K \<or> fbi_index info = FB_INFO_INDEX_HEAP_SIZE K
      then info\<lparr>fbi_data := if 0 < tot then ucast tot else fbi_data info\<rparr>
      else if fbi_index info = FB_INFO_INDEX_HEAP_FREE K
      then info\<lparr>fbi_data := if fre \<noteq> - 1 then ucast fre
             else if 0 < tot then ucast tot else fbi_data info\<rparr>
      else info)"

fun fb_loop :: "nv_abi \<Rightarrow> u64 \<Rightarrow> u64 \<Rightarrow> nat \<Rightarrow> nv2080_ctrl_fb_info list \<Rightarrow> nv2080_ctrl_fb_info list res" where
  "fb_loop K tot fre 0 infos = Inr infos"
| "fb_loop K tot fre (Suc n) [] = Inl BadAccess"
| "fb_loop K tot fre (Suc n) (info # infos) =
     bindR (fb_loop K tot fre n infos) (\<lambda>infos. Inr (fb_switch K tot fre info # infos))"

definition post_rm_control_fb_get_info ::
  "nv_abi \<Rightarrow> hook_state \<Rightarrow> (string \<Rightarrow> fb_env) \<Rightarrow> u32 \<Rightarrow> fb_get_info_params \<Rightarrow> (int \<times> fb_get_info_params \<times> hook_state) res" where
  "post_rm_control_fb_get_info K st env handle p =
     bindR (mutex_lock st) (\<lambda>st.
     bindR (find_device st handle) (\<lambda>device_id.
     let st = mutex_unlock st in
       if device_id = - 1 then Inr (0, p, st)
       else bindR (get_fb_info env device_id) (\<lambda>(tot, fre).
         bindR (fb_loop K tot fre (unat (fbInfoListSize p)) (fbInfoList p)) (\<lambda>infos.
           Inr (0, p\<lparr>fbInfoList := infos\<rparr>, st)))))"

definition post_rm_control_fb_get_info_v2 ::
  "nv_abi \<Rightarrow> hook_state \<Rightarrow> (string \<Rightarrow> fb_env) \<Rightarrow> u32 \<Rightarrow> fb_get_info_params \<Rightarrow> (int \<times> fb_get_info_params \<times> hook_state) res" where
  "post_rm_control_fb_get_info_v2 K st env handle p =
     bindR (mutex_lock st) (\<lambda>st.
     bindR (find_device st handle) (\<lambda>device_id.
     let st = mutex_unlock st in
       if device_id = - 1 then Inr (0, p, st)
       else bindR (get_fb_info env device_id) (\<lambda>(tot, fre).
         bindR (fb_loop K tot fre (unat (fbInfoListSize p)) (fbInfoList p)) (\<lambda>infos.
           Inr (0, p\<lparr>fbInfoList := infos\<rparr>, st)))))"

definition post_rm_control ::
  "nv_abi \<Rightarrow> hook_state \<Rightarrow> (string \<Rightarrow> fb_env) \<Rightarrow> u32 \<Rightarrow> nvos54_parameters \<Rightarrow> (int \<times> nvos54_parameters \<times> hook_state) res" where
  "post_rm_control K st env mnr pApi =
     (if mnr \<noteq> NVIDIA_CTL_MINOR then Inr (- EINVAL, pApi, st)
      else if os54_status pApi \<noteq> NV_OK K then Inr (0, pApi, st)
      else if os54_cmd pApi = NV2080_CTRL_CMD_FB_GET_INFO K then
        (case os54_params pApi of
           FbGetInfo p \<Rightarrow> bindR (post_rm_control_fb_get_info K st env (os54_hObject pApi) p)
             (\<lambda>(r, p, st). Inr (r, pApi\<lparr>os54_params := FbGetInfo p\<rparr>, st))
         | _ \<Rightarrow> Inl BadLayout)
      else if os54_cmd pApi = NV2080_CTRL_CMD_FB_GET_INFO_V2 K then
        (case os54_params pApi of
           FbGetInfoV2 p \<Rightarrow> bindR (post_rm_control_fb_get_info_v2 K st env (os54_hObject pApi) p)
             (\<lambda>(r, p, st). Inr (r, pApi\<lparr>os54_params := FbGetInfoV2 p\<rparr>, st))
         | _ \<Rightarrow> Inl BadLayout)
      else Inr (0, pApi, st))"

subsection \<open>The dispatcher\<close>

definition post_ioctl ::
  "nv_abi \<Rightarrow> (string \<Rightarrow> fb_env) \<Rightarrow> hook_state \<Rightarrow> addr \<Rightarrow> u32 \<Rightarrow> u32 \<Rightarrow> u32 \<Rightarrow> ioctl_arg \<Rightarrow>
     (int \<times> ioctl_arg \<times> hook_state) res" where
  "post_ioctl K env st m maj mnr cmd arg =
     (if maj \<noteq> NVIDIA_DEVICE_MAJOR then Inr (0, arg, st)
      else if IOC_NR cmd = NV_ESC_RM_VID_HEAP_CONTROL K then
        (case arg of
           Arg32 p \<Rightarrow> bindR (post_rm_vid_heap_control K st m mnr p) (\<lambda>(r, p, st). Inr (r, Arg32 p, st))
         | _ \<Rightarrow> Inl BadLayout)
      else if IOC_NR cmd = NV_ESC_RM_CONTROL K then
        (case arg of
           Arg54 p \<Rightarrow> bindR (post_rm_control K st env mnr p) (\<lambda>(r, p, st). Inr (r, Arg54 p, st))
         | _ \<Rightarrow> Inl BadLayout)
      else if IOC_NR cmd = NV_ESC_RM_FREE K then
        (case arg of
           Arg00 p \<Rightarrow> bindR (post_rm_free K st mnr p) (\<lambda>(r, st). Inr (r, Arg00 p, st))
         | _ \<Rightarrow> Inl BadLayout)
      else if IOC_NR cmd = NV_ESC_RM_ALLOC K then
        (case arg of
           Arg21 p \<Rightarrow> bindR (post_rm_alloc K st m p) (\<lambda>(r, st). Inr (r, Arg21 p, st))
         | _ \<Rightarrow> Inl BadLayout)
      else Inr (0, arg, st))"

text \<open>
  The argument has the layout its request number announces, as the driver's interface
  demands of every caller.
\<close>

definition well_laid :: "nv_abi \<Rightarrow> u32 \<Rightarrow> ioctl_arg \<Rightarrow> bool" where
  "well_laid K cmd arg =
     (case arg of
        Arg32 p \<Rightarrow> IOC_NR cmd = NV_ESC_RM_VID_HEAP_CONTROL K
      | Arg54 p \<Rightarrow> IOC_NR cmd = NV_ESC_RM_CONTROL K \<and>
          (case os54_params p of
             FbGetInfo q \<Rightarrow> os54_cmd p = NV2080_CTRL_CMD_FB_GET_INFO K \<and>
               unat (fbInfoListSize q) \<le> length (fbInfoList q)
           | FbGetInfoV2 q \<Rightarrow> os54_cmd p = NV2080_CTRL_CMD_FB_GET_INFO_V2 K \<and>
               unat (fbInfoListSize q) \<le> length (fbInfoList q)
           | OtherCtrl \<Rightarrow> os54_cmd p \<notin> {NV2080_CTRL_CMD_FB_GET_INFO K, NV2080_CTRL_CMD_FB_GET_INFO_V2 K})
      | Arg00 p \<Rightarrow> IOC_NR cmd = NV_ESC_RM_FREE K
      | Arg21 p \<Rightarrow> IOC_NR cmd = NV_ESC_RM_ALLOC K \<and>
          (case os21_pAllocParms p of
             DeviceParms d \<Rightarrow> os21_hClass p = NV01_DEVICE_0 K
           | MemoryParms q \<Rightarrow> os21_hClass p = NV01_MEMORY_LOCAL_USER K
           | OtherParms \<Rightarrow> os21_hClass p \<notin> {NV01_DEVICE_0 K, NV01_MEMORY_LOCAL_USER K})
      | ArgOther \<Rightarrow> IOC_NR cmd \<notin> {NV_ESC_RM_VID_HEAP_CONTROL K, NV_ESC_RM_CONTROL K, NV_ESC_RM_FREE K, NV_ESC_RM_ALLOC K})"

subsection \<open>The loop over the queried values\<close>

lemma fb_loop_map:
  assumes "n \<le> length infos"
  shows "fb_loop K tot fre n infos = Inr (map (fb_switch K tot fre) (take n infos) @ drop n infos)"
  using assms
proof (induction n arbitrary: infos)
  case (Suc n)
  then show ?case by (cases infos) auto
qed simp

lemma fb_loop_out_of_range:
  assumes "length infos < n"
  shows "fb_loop K tot fre n infos = Inl BadAccess"
  using assms
proof (induction n arbitrary: infos)
  case (Suc n)
  then show ?case by (cases infos) auto
qed simp

text \<open>The object that the library finds mapped: neither system call failed.\<close>

definition shm_ok :: "shm_calls \<Rightarrow> bool" where
  "shm_ok c \<longleftrightarrow> shm_opened c \<and>
     mmap_ret c \<noteq> MAP_FAILED \<and> mmap_ret c \<noteq> NULL"

lemma create_shm_addr_ok:
  assumes "shm_ok c"
  shows "\<exists>fd. create_shm_addr c sd = (mmap_ret c, sd\<lparr>sd_fd := Some fd, sd_addr := Some (mmap_ret c)\<rparr>, 0 \<le> excl_open c)"
  using assms by (auto simp: shm_ok_def shm_opened_def create_shm_addr_def map_shm_def Let_def)

lemma get_fb_info_ok:
  assumes "shm_ok (fbe_calls (env (fb_shm_path d)))"
  shows "get_fb_info env d =
    (let e = env (fb_shm_path d); fb = (if 0 \<le> excl_open (fbe_calls e) then zero_fb else fbe_content e) in
     Inr (if pid fb = 0 then (0, - 1)
          else (drop_bit 10 (total_mem fb), if fbe_readlink e = 0 then drop_bit 10 (free_mem fb) else - 1)))"
  using create_shm_addr_ok [OF assms, of "\<lparr>sd_fd = None, sd_addr = None\<rparr>"] assms
  by (auto simp: get_fb_info_def Let_def fb_cleanup_def shm_ok_def)

text \<open>The two query handlers differ only in where the caller keeps the array.\<close>

lemma fb_get_info_v2_eq: "post_rm_control_fb_get_info_v2 = post_rm_control_fb_get_info"
  by (intro ext) (simp add: post_rm_control_fb_get_info_v2_def post_rm_control_fb_get_info_def)

text \<open>A query leaves the library's own state alone.\<close>

lemma fb_get_info_wf:
  assumes wf: "wf_state st bs ds" and mu: "\<not> mu st"
    and size: "unat (fbInfoListSize p) \<le> length (fbInfoList p)"
    and shm: "\<forall>path. shm_ok (fbe_calls (env path))"
  shows "\<exists>p'. post_rm_control_fb_get_info K st env handle p = Inr (0, p', st)"
proof -
  have "wf_state (st\<lparr>mu := True\<rparr>) bs ds" using wf by simp
  note dev = find_device_wf [OF this, of handle]
  have "mutex_unlock (st\<lparr>mu := True\<rparr>) = st" using mu by (simp add: mutex_unlock_def)
  moreover obtain t f where "get_fb_info env (device_of ds handle) = Inr (t, f)"
    using get_fb_info_ok [of env "device_of ds handle"] shm by (metis surj_pair)
  ultimately show ?thesis
    using mu dev fb_loop_map [OF size]
    by (auto simp: post_rm_control_fb_get_info_def mutex_lock_def Let_def)
qed

end
