(* ===== verification/Accounting.thy ===== *)
theory Accounting
  imports Ioctl_Control
begin

text \<open>
  The memory budget. A ledger holds the budget of the device, the bytes that are free and
  the bytes this process was charged, the charged blocks and the known device objects; it
  is the abstract specification of the \<open>post_*\<close> handlers, which implement it on the linked
  lists (refinement). On ledgers the invariants of the accounting are stated: the charged
  bytes are the sum of the blocks, charging and refunding move bytes between the two
  counters, and, while every charge fits, the blocks never exceed the budget.
\<close>

subsection \<open>Rounding up\<close>

text \<open>
  Where the sum does not wrap, the rounded size is at least the requested one for every
  alignment, and less than one alignment above it.
\<close>

lemma align_up_bounds:
  assumes a: "a \<noteq> 0" and fits: "unat s + unat a \<le> 2 ^ 64"
  shows "unat s \<le> unat (align_up s a)" "unat (align_up s a) < unat s + unat a"
proof -
  have "1 \<le> unat a" using a by (simp add: unat_gt_0 Suc_le_eq)
  then have um: "unat (a - 1) = unat a - 1" by (simp add: unat_minus_one [OF a])
  have "s + a - 1 = s + (a - 1)" by simp
  moreover have "unat (s + (a - 1)) = unat s + unat (a - 1)"
    using fits um \<open>1 \<le> unat a\<close> by (intro unat_plus_no_wrap) simp
  ultimately have sum: "unat (s + a - 1) = unat s + (unat a - 1)" by (simp only: um)
  show "unat s \<le> unat (align_up s a)"
    using unat_and_not_ge [of "s + a - 1" "a - 1"] sum um by (simp add: align_up_def)
  show "unat (align_up s a) < unat s + unat a"
    using unat_and_not_le [of "s + a - 1" "a - 1"] sum \<open>1 \<le> unat a\<close> by (simp add: align_up_def)
qed

text \<open>For a power of two the result is a multiple of the alignment.\<close>

lemma align_up_multiple:
  assumes "k < 64" "a = 2 ^ k"
  shows "2 ^ k dvd unat (align_up s a)"
proof -
  have "a - 1 = mask k" using assms(2) by (simp add: mask_eq_exp_minus_1)
  then have "align_up s a = (s + a - 1) AND NOT (mask k)" by (simp add: align_up_def)
  then have "take_bit k (align_up s a) = 0"
    by (simp add: bit_eq_iff bit_simps)
  then have "take_bit k (unat (align_up s a)) = 0"
    by (metis unat_0 unsigned_take_bit_eq)
  then show ?thesis by (simp add: take_bit_eq_0_iff)
qed

lemma unat_exp_below:
  assumes k: "k < 64"
  shows "unat ((2::u64) ^ k) = 2 ^ k"
proof -
  have "(2::u64) ^ k = word_of_nat (2 ^ k)" by simp
  then have "unat ((2::u64) ^ k) = 2 ^ k mod 2 ^ 64" by (simp only: unat_of_nat) simp
  also have "(2::nat) ^ k < 2 ^ 64" using k by (intro power_strict_increasing) auto
  then have "(2::nat) ^ k mod 2 ^ 64 = 2 ^ k" by (rule mod_less)
  finally show ?thesis .
qed

text \<open>Where the sum wraps, what is left is below the alignment and is rounded down to 0.\<close>

lemma align_up_wraps:
  assumes k: "k < 64" and wrap: "2 ^ 64 < unat s + 2 ^ k"
  shows "align_up s (2 ^ k) = 0"
proof -
  note a = unat_exp_below [OF k]
  have m: "unat ((2::u64) ^ k - 1) = 2 ^ k - 1" using a k by (simp add: unat_minus_no_wrap)
  have pos: "(1::nat) \<le> 2 ^ k" by simp
  have "unat (s + (2 ^ k - 1)) = (unat s + (2 ^ k - 1)) mod 2 ^ LENGTH(64)"
    by (simp only: unat_word_ariths(1) m)
  then have "unat (s + 2 ^ k - 1) = (unat s + (2 ^ k - 1)) mod 2 ^ 64"
    by (simp add: add_diff_eq)
  moreover have "unat s < 2 ^ 64" using unsigned_less [of s] by simp
  moreover have "(2::nat) ^ k \<le> 2 ^ 64" using k by (intro power_increasing) auto
  ultimately have "unat (s + 2 ^ k - 1) = unat s + (2 ^ k - 1) - 2 ^ 64"
    using wrap pos by (simp add: le_mod_geq)
  then have lt: "unat (s + 2 ^ k - 1) < 2 ^ k" using \<open>unat s < 2 ^ 64\<close> pos by linarith
  have "take_bit k (s + 2 ^ k - 1) = s + 2 ^ k - 1"
    using lt by (metis take_bit_nat_eq_self_iff unsigned_take_bit_eq unsigned_word_eqI)
  moreover have "(s + 2 ^ k - 1) AND NOT (2 ^ k - 1) = (s + 2 ^ k - 1) AND NOT (mask k)"
    by (simp add: mask_eq_exp_minus_1)
  moreover have "take_bit k x AND NOT (mask k) = 0" for x :: u64
    by (simp add: bit_eq_iff bit_simps)
  ultimately show ?thesis by (metis align_up_def)
qed

subsection \<open>Ledgers\<close>

record ledger =
  l_total :: u64
  l_free :: u64
  l_alloc :: u64
  blocks :: "device_mem_t list"
  devs :: "rm_mem_t list"

definition charge :: "device_mem_t \<Rightarrow> ledger \<Rightarrow> ledger" where
  "charge e L = L\<lparr>l_free := l_free L - dm_size e, l_alloc := l_alloc L + dm_size e, blocks := e # blocks L\<rparr>"

definition refund :: "u32 \<Rightarrow> ledger \<Rightarrow> ledger" where
  "refund page L =
     (case take_entry (\<lambda>e. dm_object e = page) (blocks L) of
        None \<Rightarrow> L
      | Some (e, r) \<Rightarrow> L\<lparr>l_free := l_free L + dm_size e, l_alloc := l_alloc L - dm_size e, blocks := r\<rparr>)"

definition learn :: "rm_mem_t \<Rightarrow> ledger \<Rightarrow> ledger" where
  "learn e L = L\<lparr>devs := e # devs L\<rparr>"

definition forget :: "u32 \<Rightarrow> ledger \<Rightarrow> ledger" where
  "forget page L = L\<lparr>devs := drop_entry (\<lambda>e. rm_object e = page) (devs L)\<rparr>"

text \<open>The ledger that a state of the library stands for.\<close>

definition ledger_rel :: "hook_state \<Rightarrow> ledger \<Rightarrow> bool" where
  "ledger_rel st L \<longleftrightarrow> wf_state st (blocks L) (devs L) \<and> \<not> mu st \<and> alloc_mem st = l_alloc L \<and>
     (\<exists>fb. fb_info st = Some fb \<and> total_mem fb = l_total L \<and> free_mem fb = l_free L)"

text \<open>
  The effect of a request that the driver has granted, on the ledger: the return value of
  the handler and the new ledger.
\<close>

definition ledger_alloc32 :: "nv_abi \<Rightarrow> u32 \<Rightarrow> nvos32_parameters \<Rightarrow> ledger \<Rightarrow> int \<times> ledger" where
  "ledger_alloc32 K mnr p L =
     (if mnr \<noteq> NVIDIA_CTL_MINOR then (- EINVAL, L)
      else if os32_function p = NVOS32_FUNCTION_ALLOC_SIZE K \<and> os32_status p = NV_OK K \<and> os32_alignment p \<noteq> 0
      then (0, charge \<lparr>dm_object = os32_hMemory p, dm_size = os32_size p\<rparr> L)
      else (0, L))"

definition ledger_alloc21 :: "nv_abi \<Rightarrow> nvos21_parameters \<Rightarrow> ledger \<Rightarrow> int \<times> ledger" where
  "ledger_alloc21 K p L =
     (case os21_pAllocParms p of
        DeviceParms d \<Rightarrow> (0, learn \<lparr>rm_object = os21_hObjectNew p, rm_device_id = d\<rparr> L)
      | MemoryParms q \<Rightarrow>
          (if os21_status p = NV_OK K \<and> map_alignment q \<noteq> 0
           then (0, charge \<lparr>dm_object = map_owner q, dm_size = map_size q\<rparr> L) else (0, L))
      | OtherParms \<Rightarrow>
          (if os21_hClass p = NV20_SUBDEVICE_0 K \<and> device_of (devs L) (os21_hObjectParent p) \<noteq> - 1
           then (0, learn \<lparr>rm_object = os21_hObjectNew p, rm_device_id = device_of (devs L) (os21_hObjectParent p)\<rparr> L)
           else (0, L)))"

definition ledger_free :: "nv_abi \<Rightarrow> u32 \<Rightarrow> nvos00_parameters \<Rightarrow> ledger \<Rightarrow> int \<times> ledger" where
  "ledger_free K mnr p L =
     (if mnr \<noteq> NVIDIA_CTL_MINOR then (- EINVAL, L)
      else if os00_status p \<noteq> NV_OK K \<or> os00_hObjectOld p = os00_hRoot p then (0, L)
      else if os00_hRoot p = os00_hObjectParent p then (0, forget (os00_hObjectOld p) L)
      else (0, refund (os00_hObjectOld p) L))"

definition ledger_post :: "nv_abi \<Rightarrow> u32 \<Rightarrow> u32 \<Rightarrow> ioctl_arg \<Rightarrow> ledger \<Rightarrow> int \<times> ledger" where
  "ledger_post K maj mnr arg L =
     (if maj \<noteq> NVIDIA_DEVICE_MAJOR then (0, L)
      else (case arg of
        Arg32 p \<Rightarrow> ledger_alloc32 K mnr p L
      | Arg54 p \<Rightarrow> (if mnr \<noteq> NVIDIA_CTL_MINOR then - EINVAL else 0, L)
      | Arg00 p \<Rightarrow> ledger_free K mnr p L
      | Arg21 p \<Rightarrow> ledger_alloc21 K p L
      | ArgOther \<Rightarrow> (0, L)))"

subsection \<open>The handlers implement the ledger\<close>

lemma ledger_relE:
  assumes "ledger_rel st L"
  obtains fb where "wf_state st (blocks L) (devs L)" "mu st = False" "alloc_mem st = l_alloc L"
    "fb_info st = Some fb" "total_mem fb = l_total L" "free_mem fb = l_free L"
    "mutex_lock st = Inr (st\<lparr>mu := True\<rparr>)"
  using assms by (auto simp: ledger_rel_def mutex_lock_def)

lemma post_vid_heap_alloc_charges:
  assumes rel: "ledger_rel st L" and m: "fresh_block st m"
    and ok: "os32_status p = NV_OK K" "os32_alignment p \<noteq> 0"
  shows "\<exists>st'. post_vid_heap_alloc K st m p =
      Inr (0, p\<lparr>os32_total := l_total L, os32_free := l_free L - os32_size p\<rparr>, st') \<and>
    ledger_rel st' (charge \<lparr>dm_object = os32_hMemory p, dm_size = os32_size p\<rparr> L)"
proof -
  obtain fb where st: "wf_state st (blocks L) (devs L)" "alloc_mem st = l_alloc L" "fb_info st = Some fb"
    "total_mem fb = l_total L" "free_mem fb = l_free L" "mutex_lock st = Inr (st\<lparr>mu := True\<rparr>)"
    using ledger_relE [OF rel] by metis
  let ?st = "st\<lparr>mu := True\<rparr>" and ?e = "\<lparr>dm_object = os32_hMemory p, dm_size = os32_size p\<rparr>"
  have "wf_state ?st (blocks L) (devs L)" "fresh_block ?st m" using st(1) m by simp_all
  from add_mem_entry_effect [OF this, of ?e] obtain h' where h':
    "add_mem_entry ?st m ?e = Inr (?st\<lparr>links := h', mem_ents := (mem_ents ?st)(m \<mapsto> ?e)\<rparr>)"
    "wf_state (?st\<lparr>links := h', mem_ents := (mem_ents ?st)(m \<mapsto> ?e)\<rparr>) (?e # blocks L) (devs L)"
    by blast
  have m0: "m \<noteq> NULL" using m by (simp add: fresh_block_def)
  show ?thesis
    using st h' m0 ok
    by (auto simp: post_vid_heap_alloc_def Let_def ledger_rel_def charge_def mutex_unlock_def wf_state_def)
qed

lemma post_memory_rm_alloc_charges:
  assumes rel: "ledger_rel st L" and m: "fresh_block st m"
    and ok: "os21_status p = NV_OK K" "os21_pAllocParms p = MemoryParms q" "map_alignment q \<noteq> 0"
  shows "\<exists>st'. post_memory_rm_alloc K st m p = Inr (0, st') \<and>
    ledger_rel st' (charge \<lparr>dm_object = map_owner q, dm_size = map_size q\<rparr> L)"
proof -
  obtain fb where st: "wf_state st (blocks L) (devs L)" "alloc_mem st = l_alloc L" "fb_info st = Some fb"
    "total_mem fb = l_total L" "free_mem fb = l_free L" "mutex_lock st = Inr (st\<lparr>mu := True\<rparr>)"
    using ledger_relE [OF rel] by metis
  let ?st = "st\<lparr>mu := True\<rparr>" and ?e = "\<lparr>dm_object = map_owner q, dm_size = map_size q\<rparr>"
  have "wf_state ?st (blocks L) (devs L)" "fresh_block ?st m" using st(1) m by simp_all
  from add_mem_entry_effect [OF this, of ?e] obtain h' where h':
    "add_mem_entry ?st m ?e = Inr (?st\<lparr>links := h', mem_ents := (mem_ents ?st)(m \<mapsto> ?e)\<rparr>)"
    "wf_state (?st\<lparr>links := h', mem_ents := (mem_ents ?st)(m \<mapsto> ?e)\<rparr>) (?e # blocks L) (devs L)"
    by blast
  have m0: "m \<noteq> NULL" using m by (simp add: fresh_block_def)
  show ?thesis
    using st h' m0 ok
    by (auto simp: post_memory_rm_alloc_def Let_def ledger_rel_def charge_def mutex_unlock_def wf_state_def)
qed

lemma add_rm_entry_learns:
  assumes rel: "ledger_rel st L" and m: "fresh_block st m"
  shows "\<exists>st'. add_rm_entry (st\<lparr>mu := True\<rparr>) m e = Inr st' \<and> ledger_rel (mutex_unlock st') (learn e L)"
proof -
  have st: "wf_state st (blocks L) (devs L)" using rel by (simp add: ledger_rel_def)
  let ?st = "st\<lparr>mu := True\<rparr>"
  have "wf_state ?st (blocks L) (devs L)" "fresh_block ?st m" using st m by simp_all
  from add_rm_entry_effect [OF this, of e] obtain h' where h':
    "add_rm_entry ?st m e = Inr (?st\<lparr>links := h', rm_ents := (rm_ents ?st)(m \<mapsto> e)\<rparr>)"
    "wf_state (?st\<lparr>links := h', rm_ents := (rm_ents ?st)(m \<mapsto> e)\<rparr>) (blocks L) (e # devs L)"
    by blast
  with rel show ?thesis by (auto simp: ledger_rel_def learn_def mutex_unlock_def wf_state_def)
qed

lemma post_device_rm_alloc_learns:
  assumes rel: "ledger_rel st L" and m: "fresh_block st m" and parms: "os21_pAllocParms p = DeviceParms d"
  shows "\<exists>st'. post_device_rm_alloc st m p = Inr (0, st') \<and>
    ledger_rel st' (learn \<lparr>rm_object = os21_hObjectNew p, rm_device_id = d\<rparr> L)"
proof -
  obtain st' where "add_rm_entry (st\<lparr>mu := True\<rparr>) m \<lparr>rm_object = os21_hObjectNew p, rm_device_id = d\<rparr> = Inr st'"
    "ledger_rel (mutex_unlock st') (learn \<lparr>rm_object = os21_hObjectNew p, rm_device_id = d\<rparr> L)"
    using add_rm_entry_learns [OF rel m] by blast
  moreover have "mutex_lock st = Inr (st\<lparr>mu := True\<rparr>)" "m \<noteq> NULL"
    using rel m by (auto simp: ledger_rel_def mutex_lock_def fresh_block_def)
  ultimately show ?thesis using parms by (simp add: post_device_rm_alloc_def)
qed

lemma post_ctrl_rm_alloc_learns:
  fixes p :: nvos21_parameters
  assumes rel: "ledger_rel st L" and m: "fresh_block st m"
  defines "d \<equiv> device_of (devs L) (os21_hObjectParent p)"
  shows "\<exists>st'. post_ctrl_rm_alloc st m p = Inr (0, st') \<and>
    ledger_rel st' (if d = - 1 then L else learn \<lparr>rm_object = os21_hObjectNew p, rm_device_id = d\<rparr> L)"
proof -
  have lock: "mutex_lock st = Inr (st\<lparr>mu := True\<rparr>)" and m0: "m \<noteq> NULL"
    using rel m by (auto simp: ledger_rel_def mutex_lock_def fresh_block_def)
  have "wf_state (st\<lparr>mu := True\<rparr>) (blocks L) (devs L)" using rel by (simp add: ledger_rel_def)
  note dev = find_device_wf [OF this, of "os21_hObjectParent p", folded d_def]
  have same: "mutex_unlock (st\<lparr>mu := True\<rparr>) = st" using rel by (simp add: mutex_unlock_def ledger_rel_def)
  obtain st' where "add_rm_entry (st\<lparr>mu := True\<rparr>) m \<lparr>rm_object = os21_hObjectNew p, rm_device_id = d\<rparr> = Inr st'"
    "ledger_rel (mutex_unlock st') (learn \<lparr>rm_object = os21_hObjectNew p, rm_device_id = d\<rparr> L)"
    using add_rm_entry_learns [OF rel m] by blast
  then show ?thesis using lock m0 dev same rel by (simp add: post_ctrl_rm_alloc_def)
qed

lemma post_rm_free_refines:
  assumes rel: "ledger_rel st L"
  shows "\<exists>st'. post_rm_free K st mnr p = Inr (fst (ledger_free K mnr p L), st') \<and>
    ledger_rel st' (snd (ledger_free K mnr p L))"
proof -
  obtain fb where st: "wf_state st (blocks L) (devs L)" "alloc_mem st = l_alloc L" "fb_info st = Some fb"
    "total_mem fb = l_total L" "free_mem fb = l_free L" "mutex_lock st = Inr (st\<lparr>mu := True\<rparr>)"
    using ledger_relE [OF rel] by metis
  let ?st = "st\<lparr>mu := True\<rparr>" and ?k = "os00_hObjectOld p"
  have wf: "wf_state ?st (blocks L) (devs L)" "fb_info ?st = Some fb" using st by simp_all
  have mem: "\<exists>st'. free_heap_page ?st ?k = Inr st' \<and> ledger_rel (mutex_unlock st') (refund ?k L)"
  proof (cases "take_entry (\<lambda>e. dm_object e = ?k) (blocks L)")
    case None
    then show ?thesis
      using free_heap_page_empty [of ?st "devs L"] wf rel st
      by (auto simp: refund_def mutex_unlock_def ledger_rel_def)
  next
    case (Some er)
    then obtain e r where er: "take_entry (\<lambda>e. dm_object e = ?k) (blocks L) = Some (e, r)" by (cases er) auto
    show ?thesis
      using free_heap_page_effect [OF wf er] er st
      by (auto simp: refund_def mutex_unlock_def ledger_rel_def wf_state_def)
  qed
  have dev: "\<exists>st'. free_device_page ?st ?k = Inr st' \<and> ledger_rel (mutex_unlock st') (forget ?k L)"
  proof (cases "take_entry (\<lambda>e. rm_object e = ?k) (devs L)")
    case None
    then show ?thesis
      using free_device_page_empty [of ?st "blocks L"] wf rel st
      by (auto simp: forget_def drop_entry_def mutex_unlock_def ledger_rel_def)
  next
    case (Some er)
    then obtain e r where er: "take_entry (\<lambda>e. rm_object e = ?k) (devs L) = Some (e, r)" by (cases er) auto
    show ?thesis
      using free_device_page_effect [OF wf(1) er] er st
      by (auto simp: forget_def drop_entry_def mutex_unlock_def ledger_rel_def wf_state_def)
  qed
  from mem dev show ?thesis
    using st(6) rel by (auto simp: post_rm_free_def ledger_free_def)
qed

text \<open>Every branch of the dispatcher, once the driver has answered.\<close>

lemma post_rm_vid_heap_control_refines:
  assumes rel: "ledger_rel st L" and m: "fresh_block st m"
  shows "\<exists>p' st'. post_rm_vid_heap_control K st m mnr p = Inr (fst (ledger_alloc32 K mnr p L), p', st') \<and>
    ledger_rel st' (snd (ledger_alloc32 K mnr p L))"
  using post_vid_heap_alloc_charges [OF rel m, of p K] rel
  by (auto simp: post_rm_vid_heap_control_def ledger_alloc32_def post_vid_heap_alloc_def)

lemma post_rm_alloc_refines:
  assumes rel: "ledger_rel st L" and m: "fresh_block st m" and K: "abi_ok K"
    and laid: "well_laid K cmd (Arg21 p)"
  shows "\<exists>st'. post_rm_alloc K st m p = Inr (fst (ledger_alloc21 K p L), st') \<and>
    ledger_rel st' (snd (ledger_alloc21 K p L))"
proof (cases "os21_pAllocParms p")
  case (DeviceParms d)
  then show ?thesis
    using post_device_rm_alloc_learns [OF rel m DeviceParms] laid
    by (simp add: post_rm_alloc_def ledger_alloc21_def well_laid_def)
next
  case (MemoryParms q)
  then have "post_rm_alloc K st m p = post_memory_rm_alloc K st m p"
    using laid K by (auto simp: post_rm_alloc_def well_laid_def abi_ok_def)
  then show ?thesis
    using post_memory_rm_alloc_charges [OF rel m _ MemoryParms, of K] rel MemoryParms
    by (auto simp: ledger_alloc21_def post_memory_rm_alloc_def)
next
  case OtherParms
  then show ?thesis
    using post_ctrl_rm_alloc_learns [OF rel m, of p] rel laid
    by (auto simp: post_rm_alloc_def ledger_alloc21_def well_laid_def split: if_splits)
qed

lemma post_rm_control_refines:
  assumes rel: "ledger_rel st L" and K: "abi_ok K" and laid: "well_laid K cmd (Arg54 p)"
    and shm: "\<forall>path. shm_ok (fbe_calls (env path))"
  shows "\<exists>p'. post_rm_control K st env mnr p = Inr (if mnr \<noteq> NVIDIA_CTL_MINOR then - EINVAL else 0, p', st)"
proof -
  have st: "wf_state st (blocks L) (devs L)" "\<not> mu st" using rel by (auto simp: ledger_rel_def)
  show ?thesis
    using fb_get_info_wf [OF st _ shm, of _ K "os54_hObject p"] laid K
    by (fastforce simp: post_rm_control_def well_laid_def abi_ok_def fb_get_info_v2_eq
        split: ctrl_params.splits)
qed

lemma post_ioctl_ledger:
  assumes rel: "ledger_rel st L" and m: "fresh_block st m" and K: "abi_ok K" and laid: "well_laid K cmd arg"
    and shm: "\<forall>path. shm_ok (fbe_calls (env path))"
  shows "\<exists>arg' st'. post_ioctl K env st m maj mnr cmd arg = Inr (fst (ledger_post K maj mnr arg L), arg', st') \<and>
    ledger_rel st' (snd (ledger_post K maj mnr arg L))"
proof (cases "maj = NVIDIA_DEVICE_MAJOR")
  case False
  then show ?thesis using rel by (simp add: post_ioctl_def ledger_post_def)
next
  case maj: True
  show ?thesis
  proof (cases arg)
    case (Arg32 p)
    then have "IOC_NR cmd = NV_ESC_RM_VID_HEAP_CONTROL K" using laid by (simp add: well_laid_def)
    then show ?thesis
      using post_rm_vid_heap_control_refines [OF rel m, of K mnr p] maj Arg32
      by (auto simp: post_ioctl_def ledger_post_def)
  next
    case (Arg21 p)
    then have "IOC_NR cmd = NV_ESC_RM_ALLOC K" using laid by (simp add: well_laid_def)
    then show ?thesis
      using post_rm_alloc_refines [OF rel m K, of cmd p] laid maj Arg21 K
      by (auto simp: post_ioctl_def ledger_post_def abi_ok_def)
  next
    case (Arg54 p)
    then have "IOC_NR cmd = NV_ESC_RM_CONTROL K" using laid by (simp add: well_laid_def)
    then show ?thesis
      using post_rm_control_refines [OF rel K _ shm, of cmd p mnr] laid maj Arg54 K rel
      by (auto simp: post_ioctl_def ledger_post_def abi_ok_def)
  next
    case (Arg00 p)
    then have "IOC_NR cmd = NV_ESC_RM_FREE K" using laid by (simp add: well_laid_def)
    then show ?thesis
      using post_rm_free_refines [OF rel, of K mnr p] maj Arg00 K
      by (auto simp: post_ioctl_def ledger_post_def abi_ok_def)
  next
    case ArgOther
    then show ?thesis using rel maj laid by (auto simp: post_ioctl_def ledger_post_def well_laid_def)
  qed
qed

subsection \<open>Invariants of the ledger\<close>

text \<open>
  The counters agree with the blocks, in machine arithmetic, whatever is charged and
  refunded; \<open>budget\<close> is the part of the device's memory that is free or charged to this
  process.
\<close>

definition balanced :: "ledger \<Rightarrow> bool" where
  "balanced L \<longleftrightarrow> l_alloc L = sum_list (map dm_size (blocks L))"

definition budget :: "ledger \<Rightarrow> u64" where
  "budget L = l_free L + l_alloc L"

lemma sum_list_take_entry:
  fixes f :: "'e \<Rightarrow> 'a::comm_monoid_add"
  assumes "take_entry P es = Some (e, r)"
  shows "sum_list (map f es) = f e + sum_list (map f r)"
proof -
  obtain xs ys where "es = xs @ e # ys" "r = xs @ ys" using take_entry_split [OF assms] by blast
  then show ?thesis by (simp add: algebra_simps)
qed

lemma charge_invariants:
  assumes "balanced L"
  shows "balanced (charge e L)" "budget (charge e L) = budget L" "l_total (charge e L) = l_total L"
  using assms by (simp_all add: balanced_def budget_def charge_def algebra_simps)

lemma refund_invariants:
  assumes "balanced L"
  shows "balanced (refund k L)" "budget (refund k L) = budget L" "l_total (refund k L) = l_total L"
  using assms sum_list_take_entry [of "\<lambda>e. dm_object e = k" "blocks L" _ _ dm_size]
  by (auto simp: balanced_def budget_def refund_def algebra_simps split: option.splits)

lemma ledger_post_invariants:
  assumes "balanced L"
  shows "balanced (snd (ledger_post K maj mnr arg L)) \<and> budget (snd (ledger_post K maj mnr arg L)) = budget L \<and>
    l_total (snd (ledger_post K maj mnr arg L)) = l_total L"
proof -
  have *: "balanced (learn e L)" "budget (learn e L) = budget L" "l_total (learn e L) = l_total L"
    "balanced (forget k L)" "budget (forget k L) = budget L" "l_total (forget k L) = l_total L" for e k
    using assms by (simp_all add: balanced_def budget_def learn_def forget_def)
  show ?thesis
    using assms charge_invariants [OF assms] refund_invariants [OF assms] *
    by (auto simp: ledger_post_def ledger_alloc32_def ledger_alloc21_def ledger_free_def
        split: ioctl_arg.splits alloc_parms.splits)
qed

text \<open>
  Without wrap-around: the free bytes, the blocks of this process and the bytes that other
  processes hold make up the budget of the device.
\<close>

definition within_budget :: "nat \<Rightarrow> ledger \<Rightarrow> bool" where
  "within_budget others L \<longleftrightarrow>
     unat (l_free L) + sum_list (map (\<lambda>e. unat (dm_size e)) (blocks L)) + others = unat (l_total L)"

lemma charge_within:
  assumes "within_budget others L" "unat (dm_size e) \<le> unat (l_free L)"
  shows "within_budget others (charge e L)"
  using assms unat_minus_no_wrap [OF assms(2)] by (simp add: within_budget_def charge_def)

lemma refund_within:
  assumes "within_budget others L"
  shows "within_budget others (refund k L)"
proof (cases "take_entry (\<lambda>e. dm_object e = k) (blocks L)")
  case (Some er)
  then obtain e r where er: "take_entry (\<lambda>e. dm_object e = k) (blocks L) = Some (e, r)" by (cases er) auto
  have sum: "sum_list (map (\<lambda>e. unat (dm_size e)) (blocks L)) =
      unat (dm_size e) + sum_list (map (\<lambda>e. unat (dm_size e)) r)"
    by (rule sum_list_take_entry [OF er])
  have "unat (l_total L) < 2 ^ 64" using unsigned_less [of "l_total L"] by simp
  then have "unat (l_free L + dm_size e) = unat (l_free L) + unat (dm_size e)"
    using assms sum by (intro unat_plus_no_wrap) (simp add: within_budget_def)
  with assms er sum show ?thesis by (simp add: within_budget_def refund_def)
qed (use assms in \<open>simp add: refund_def\<close>)

text \<open>What the driver's answer charges: the size of the new block, if there is one.\<close>

definition charged_size :: "nv_abi \<Rightarrow> u32 \<Rightarrow> u32 \<Rightarrow> ioctl_arg \<Rightarrow> u64" where
  "charged_size K maj mnr arg =
     (if maj \<noteq> NVIDIA_DEVICE_MAJOR then 0
      else (case arg of
        Arg32 p \<Rightarrow> if mnr = NVIDIA_CTL_MINOR \<and> os32_function p = NVOS32_FUNCTION_ALLOC_SIZE K \<and>
          os32_status p = NV_OK K \<and> os32_alignment p \<noteq> 0 then os32_size p else 0
      | Arg21 p \<Rightarrow> (case os21_pAllocParms p of
          MemoryParms q \<Rightarrow> if os21_status p = NV_OK K \<and> map_alignment q \<noteq> 0 then map_size q else 0
        | _ \<Rightarrow> 0)
      | _ \<Rightarrow> 0))"

lemma ledger_post_within:
  assumes "within_budget others L" "unat (charged_size K maj mnr arg) \<le> unat (l_free L)"
  shows "within_budget others (snd (ledger_post K maj mnr arg L))"
proof -
  have *: "within_budget others (learn e L)" "within_budget others (forget k L)" for e k
    using assms(1) by (simp_all add: within_budget_def learn_def forget_def)
  show ?thesis
    using assms charge_within [OF assms(1)] refund_within [OF assms(1)] *
    by (auto simp: ledger_post_def ledger_alloc32_def ledger_alloc21_def ledger_free_def charged_size_def
        split: ioctl_arg.splits alloc_parms.splits)
qed

end
