(* ===== verification/Cfloat.thy ===== *)
theory Cfloat
  imports Prelude Complex_Main
begin

text \<open>
  The floating-point arithmetic that the sources use: \<open>float\<close> in the monitor's controller
  and \<open>double\<close> in the parser of sizes. A finite value is the rational number it stands for;
  every operation computes exactly and rounds to the nearest value of the format, ties to
  even, with gradual underflow and overflow to infinity. The two zeros of the formats are
  one value here: a zero with a negative sign could only be told apart by a division by it,
  which gives an infinity of the other sign.

  The locale \<open>float_format\<close> collects what the clients need of a format (exact on small
  integers and on powers of two times them, monotone, sign preserving); the two formats of
  the C implementation are interpretations of it.
\<close>

subsection \<open>Formats and rounding\<close>

record fmt =
  prec :: nat
  emin :: int
  emax :: int

definition binary32 :: fmt where
  "binary32 = \<lparr>prec = 24, emin = - 126, emax = 127\<rparr>"

definition binary64 :: fmt where
  "binary64 = \<lparr>prec = 53, emin = - 1022, emax = 1023\<rparr>"

datatype cfloat = Fin rat | Inf bool | NaN

text \<open>The number of binary digits of a positive number.\<close>

function bits :: "int \<Rightarrow> int" where
  "bits n = (if n \<le> 0 then 0 else 1 + bits (n div 2))"
  by pat_completeness auto
termination
  by (relation "measure nat") auto

declare bits.simps [simp del]

text \<open>The binary exponent of a positive rational number.\<close>

definition expo :: "rat \<Rightarrow> int" where
  "expo x = (if 1 \<le> x then bits \<lfloor>x\<rfloor> - 1 else - bits (\<lceil>1 / x\<rceil> - 1))"

definition round_even :: "rat \<Rightarrow> int" where
  "round_even q =
     (let f = \<lfloor>q\<rfloor>; r = q - of_int f in
      if r < 1 / 2 then f else if 1 / 2 < r then f + 1 else if even f then f else f + 1)"

definition ulp :: "fmt \<Rightarrow> rat \<Rightarrow> rat" where
  "ulp F x = 2 powi (max (expo x) (emin F) - int (prec F) + 1)"

definition round_mag :: "fmt \<Rightarrow> rat \<Rightarrow> rat" where
  "round_mag F x = (if x \<le> 0 then 0 else of_int (round_even (x / ulp F x)) * ulp F x)"

definition rnd :: "fmt \<Rightarrow> rat \<Rightarrow> cfloat" where
  "rnd F x =
     (let r = round_mag F \<bar>x\<bar> in
      if 2 powi (emax F + 1) \<le> r then Inf (x < 0) else Fin (if x < 0 then - r else r))"

subsection \<open>Operations\<close>

definition fl_of_int :: "fmt \<Rightarrow> int \<Rightarrow> cfloat" where
  "fl_of_int F i = rnd F (of_int i)"

fun fl_neg_sign :: "cfloat \<Rightarrow> bool" where
  "fl_neg_sign (Fin x) = (x < 0)"
| "fl_neg_sign (Inf s) = s"
| "fl_neg_sign NaN = False"

fun fl_add :: "fmt \<Rightarrow> cfloat \<Rightarrow> cfloat \<Rightarrow> cfloat" where
  "fl_add F (Fin x) (Fin y) = rnd F (x + y)"
| "fl_add F (Inf s) (Inf t) = (if s = t then Inf s else NaN)"
| "fl_add F (Inf s) (Fin y) = Inf s"
| "fl_add F (Fin x) (Inf t) = Inf t"
| "fl_add F _ _ = NaN"

fun fl_mul :: "fmt \<Rightarrow> cfloat \<Rightarrow> cfloat \<Rightarrow> cfloat" where
  "fl_mul F (Fin x) (Fin y) = rnd F (x * y)"
| "fl_mul F NaN _ = NaN"
| "fl_mul F _ NaN = NaN"
| "fl_mul F x y = (if x = Fin 0 \<or> y = Fin 0 then NaN else Inf (fl_neg_sign x \<noteq> fl_neg_sign y))"

fun fl_div :: "fmt \<Rightarrow> cfloat \<Rightarrow> cfloat \<Rightarrow> cfloat" where
  "fl_div F (Fin x) (Fin y) = (if y = 0 then (if x = 0 then NaN else Inf (x < 0)) else rnd F (x / y))"
| "fl_div F (Inf s) (Fin y) = Inf (s \<noteq> (y < 0))"
| "fl_div F (Fin x) (Inf t) = Fin 0"
| "fl_div F _ _ = NaN"

fun fl_less :: "cfloat \<Rightarrow> cfloat \<Rightarrow> bool" where
  "fl_less (Fin x) (Fin y) = (x < y)"
| "fl_less (Inf s) (Inf t) = (s \<and> \<not> t)"
| "fl_less (Inf s) (Fin y) = s"
| "fl_less (Fin x) (Inf t) = (\<not> t)"
| "fl_less _ _ = False"

text \<open>Conversion to an integer type cuts the fraction off; out of its range it is undefined.\<close>

definition trunc :: "rat \<Rightarrow> int" where
  "trunc x = (if x < 0 then - \<lfloor>- x\<rfloor> else \<lfloor>x\<rfloor>)"

fun fl_to_int :: "cfloat \<Rightarrow> int res" where
  "fl_to_int (Fin x) = (if int32_range (trunc x) then Inr (trunc x) else Inl FloatCast)"
| "fl_to_int _ = Inl FloatCast"

fun fl_to_size :: "cfloat \<Rightarrow> u64 res" where
  "fl_to_size (Fin x) = (if 0 \<le> trunc x \<and> trunc x < 2 ^ 64 then Inr (word_of_int (trunc x)) else Inl FloatCast)"
| "fl_to_size _ = Inl FloatCast"

lemma trunc_between:
  assumes "of_int a \<le> x" "x \<le> of_int b"
  shows "a \<le> trunc x" "trunc x \<le> b"
  using assms unfolding trunc_def by (auto simp: le_floor_iff floor_le_iff) linarith+

lemma fl_to_int_between:
  assumes "of_int a \<le> x" "x \<le> of_int b" "int32_range a" "int32_range b"
  shows "\<exists>i. fl_to_int (Fin x) = Inr i \<and> a \<le> i \<and> i \<le> b"
  using trunc_between [OF assms(1,2)] assms(3,4) by (auto simp: int32_range_def)

subsection \<open>Exponents\<close>

lemma bits_nat: "0 \<le> bits n"
  by (induction n rule: bits.induct) (subst bits.simps, simp)

lemma bits_bounds: "0 < n \<Longrightarrow> 2 ^ nat (bits n - 1) \<le> n \<and> n + 1 \<le> 2 ^ nat (bits n) \<and> 0 < bits n"
proof (induction n rule: bits.induct)
  case (1 n)
  have n: "bits n = 1 + bits (n div 2)" using 1(2) by (subst bits.simps) simp
  show ?case
  proof (cases "n = 1")
    case True
    then have "bits n = 1" using n by (simp add: bits.simps [of 0])
    with True show ?thesis by simp
  next
    case False
    define k where "k = n div 2"
    have "0 < k" using 1(2) False by (simp add: k_def)
    then have IH: "2 ^ nat (bits k - 1) \<le> k" "k + 1 \<le> 2 ^ nat (bits k)" "0 < bits k"
      using 1 by (auto simp: k_def)
    have "nat (bits n) = Suc (nat (bits k))" "nat (bits n - 1) = Suc (nat (bits k - 1))"
      using IH(3) n by (simp_all add: k_def nat_add_distrib flip: nat_diff_distrib)
    moreover have "2 * k \<le> n" "n < 2 * k + 2" by (auto simp: k_def)
    ultimately show ?thesis using IH n by (simp add: k_def)
  qed
qed

lemma bits_bounds_rat:
  assumes "0 < n"
  shows "(2::rat) powi (bits n - 1) \<le> of_int n" "of_int n + 1 \<le> (2::rat) powi bits n"
proof -
  have b: "2 ^ nat (bits n - 1) \<le> n" "n + 1 \<le> 2 ^ nat (bits n)" "0 < bits n" using bits_bounds [OF assms] by auto
  have "of_int (2 ^ nat (bits n - 1)) \<le> (of_int n :: rat)" "of_int (n + 1) \<le> (of_int (2 ^ nat (bits n)) :: rat)"
    using b(1,2) by (simp_all only: of_int_le_iff)
  with b(3) show "(2::rat) powi (bits n - 1) \<le> of_int n" "of_int n + 1 \<le> (2::rat) powi bits n"
    by (simp_all add: power_int_nonneg_exp)
qed

lemma expo_bounds:
  assumes "0 < x"
  shows "2 powi expo x \<le> x" "x < 2 powi (expo x + 1)"
proof -
  have "2 powi expo x \<le> x \<and> x < 2 powi (expo x + 1)"
  proof (cases "1 \<le> x")
    case True
    define n where "n = \<lfloor>x\<rfloor>"
    have n: "0 < n" "of_int n \<le> x" "x < of_int n + 1" using True by (auto simp: n_def) linarith
    then show ?thesis
      using bits_bounds_rat [OF n(1)] True by (simp add: expo_def flip: n_def)
  next
    case False
    define y where "y = 1 / x"
    have y: "1 < y" "0 < y" using False assms by (auto simp: y_def)
    define n where "n = \<lceil>y\<rceil> - 1"
    have n: "0 < n" "of_int n < y" "y \<le> of_int n + 1" using y by (auto simp: n_def) linarith+
    define b where "b = bits n"
    have yb: "(2::rat) powi (b - 1) < y" "y \<le> 2 powi b"
      using n(2,3) bits_bounds_rat [OF n(1)] by (auto simp: b_def)
    have e: "expo x = - b" "expo x + 1 = - (b - 1)" using False by (simp_all add: expo_def n_def b_def y_def)
    have "1 / (2::rat) powi b \<le> x" using yb(2) assms by (simp add: y_def field_simps)
    moreover have "x < 1 / (2::rat) powi (b - 1)" using yb(1) assms by (simp add: y_def field_simps)
    moreover have "(2::rat) powi (expo x + 1) = 1 / 2 powi (b - 1)"
      unfolding e(2) by (rule power_int_minus_divide)
    moreover have "(2::rat) powi expo x = 1 / 2 powi b"
      unfolding e(1) by (rule power_int_minus_divide)
    ultimately show ?thesis by metis
  qed
  then show "2 powi expo x \<le> x" "x < 2 powi (expo x + 1)" by auto
qed

lemma powi_le_iff: "(2::rat) powi a \<le> 2 powi b \<longleftrightarrow> a \<le> b"
  using power_int_increasing [of a b "2::rat"] power_int_strict_increasing [of b a "2::rat"] by force

lemma powi_less_iff: "(2::rat) powi a < 2 powi b \<longleftrightarrow> a < b"
  using powi_le_iff [of b a] by linarith

lemma expo_unique:
  assumes "2 powi e \<le> x" "x < 2 powi (e + 1)"
  shows "expo x = e"
proof -
  have pos: "0 < x" using assms(1) by (metis less_le_trans zero_less_numeral zero_less_power_int)
  have "(2::rat) powi e < 2 powi (expo x + 1)" "(2::rat) powi expo x < 2 powi (e + 1)"
    using expo_bounds [OF pos] assms by linarith+
  then have "e < expo x + 1" "expo x < e + 1" by (simp_all only: powi_less_iff)
  then show ?thesis by simp
qed

lemma expo_mono:
  assumes "0 < x" "x \<le> y"
  shows "expo x \<le> expo y"
proof -
  have "0 < y" using assms by simp
  then have "(2::rat) powi expo x < 2 powi (expo y + 1)"
    using expo_bounds(1) [OF assms(1)] expo_bounds(2) [of y] assms by linarith
  then have "expo x < expo y + 1" by (simp only: powi_less_iff)
  then show ?thesis by simp
qed

subsection \<open>Rounding to an integer\<close>

lemma round_even_ge: "of_int k \<le> q \<Longrightarrow> k \<le> round_even q"
  by (simp add: round_even_def Let_def) linarith

lemma round_even_le: "q \<le> of_int k \<Longrightarrow> round_even q \<le> k"
proof -
  assume q: "q \<le> of_int k"
  show "round_even q \<le> k"
  proof (cases "\<lfloor>q\<rfloor> = k")
    case True
    then have "q = of_int k" using q by linarith
    then show ?thesis by (simp add: round_even_def)
  next
    case False
    then have "\<lfloor>q\<rfloor> + 1 \<le> k" using q by linarith
    then show ?thesis by (auto simp: round_even_def Let_def)
  qed
qed

lemma round_even_of_int [simp]: "round_even (of_int k) = k"
  by (simp add: round_even_def)

lemma round_even_mono:
  assumes "q \<le> q'"
  shows "round_even q \<le> round_even q'"
proof (cases "\<lfloor>q\<rfloor> = \<lfloor>q'\<rfloor>")
  case True
  then show ?thesis using assms by (auto simp: round_even_def Let_def)
next
  case False
  then have "\<lfloor>q\<rfloor> + 1 \<le> \<lfloor>q'\<rfloor>" using assms by (smt (verit) floor_mono)
  then have "round_even q \<le> \<lfloor>q\<rfloor> + 1" "\<lfloor>q\<rfloor> + 1 \<le> round_even q'"
    by (auto intro!: round_even_le round_even_ge) linarith+
  then show ?thesis by simp
qed

subsection \<open>Formats\<close>

text \<open>
  What the clients use of a format: at least two bits of precision and a range around 1.
\<close>

locale float_format =
  fixes F :: fmt
  assumes prec: "2 \<le> prec F" and range: "emin F \<le> 0" "int (prec F) \<le> emax F"
begin

lemma ulp_pos: "0 < ulp F x"
  by (simp add: ulp_def)

lemma round_mag_nonneg: "0 \<le> round_mag F x"
  using round_even_ge [of 0 "x / ulp F x"] ulp_pos [of x]
  by (simp add: round_mag_def)

lemma powi_over_ulp:
  assumes "max (expo x) (emin F) - int (prec F) + 1 \<le> k"
  shows "(2::rat) powi k = of_int (2 ^ nat (k - (max (expo x) (emin F) - int (prec F) + 1))) * ulp F x"
proof -
  define u where "u = max (expo x) (emin F) - int (prec F) + 1"
  have "(2::rat) powi k = 2 powi (k - u) * 2 powi u" by (simp flip: power_int_add)
  also have "(2::rat) powi (k - u) = 2 ^ nat (k - u)" using assms by (simp add: u_def power_int_nonneg_exp)
  finally show ?thesis by (simp add: u_def ulp_def)
qed

text \<open>Rounding is exact on the values of the format.\<close>

lemma round_mag_exact:
  assumes x: "0 < x" "x = of_int m * 2 powi k" and m: "m < 2 ^ prec F" and k: "emin F - int (prec F) + 1 \<le> k"
  shows "round_mag F x = x"
proof -
  have "of_int m < (2::rat) ^ prec F" using m by (metis of_int_less_iff of_int_numeral of_int_power)
  then have "x < 2 ^ prec F * 2 powi k" using x(2) by simp
  also have "(2::rat) ^ prec F * 2 powi k = 2 powi (int (prec F) + k)"
    by (simp add: power_int_add)
  finally have "(2::rat) powi expo x < 2 powi (int (prec F) + k)"
    using expo_bounds(1) [OF x(1)] by linarith
  then have "expo x < int (prec F) + k" by (simp only: powi_less_iff)
  then have "max (expo x) (emin F) - int (prec F) + 1 \<le> k" using k by auto
  from powi_over_ulp [OF this] obtain j :: int where j: "(2::rat) powi k = of_int j * ulp F x" by blast
  have "x = of_int (m * j) * ulp F x" using x(2) j by simp
  then have "x / ulp F x = of_int (m * j)" using ulp_pos [of x] by (metis less_irrefl nonzero_mult_div_cancel_right)
  then have "of_int (round_even (x / ulp F x)) = x / ulp F x" by (simp only: round_even_of_int)
  then show ?thesis using x(1) ulp_pos [of x] by (simp add: round_mag_def)
qed

text \<open>Rounding is monotone.\<close>

lemma round_mag_le_next:
  assumes "0 < x"
  shows "round_mag F x \<le> 2 powi (max (expo x) (emin F) + 1)"
proof -
  let ?e = "max (expo x) (emin F)"
  have k: "?e - int (prec F) + 1 \<le> ?e + 1" by simp
  obtain j :: int where j: "(2::rat) powi (?e + 1) = of_int j * ulp F x"
    using powi_over_ulp [OF k] by blast
  have "(2::rat) powi (expo x + 1) \<le> 2 powi (?e + 1)" by (simp only: powi_le_iff)
  then have "x \<le> of_int j * ulp F x" using expo_bounds(2) [OF assms] j by linarith
  then have "x / ulp F x \<le> of_int j" using ulp_pos [of x] by (simp add: field_simps)
  then have "round_even (x / ulp F x) \<le> j" by (rule round_even_le)
  then show ?thesis using assms j ulp_pos [of x] by (simp add: round_mag_def)
qed

lemma round_mag_ge_expo:
  assumes "0 < x" "emin F < expo x"
  shows "2 powi expo x \<le> round_mag F x"
proof -
  have k: "max (expo x) (emin F) - int (prec F) + 1 \<le> expo x" using assms prec by simp
  obtain j :: int where j: "(2::rat) powi expo x = of_int j * ulp F x"
    using powi_over_ulp [OF k] by blast
  then have "of_int j * ulp F x \<le> x" using expo_bounds(1) [OF assms(1)] by simp
  then have "of_int j \<le> x / ulp F x" using ulp_pos [of x] by (simp add: field_simps)
  then have "j \<le> round_even (x / ulp F x)" by (rule round_even_ge)
  then show ?thesis using assms j ulp_pos [of x] by (simp add: round_mag_def)
qed

lemma round_mag_mono:
  assumes "x \<le> y"
  shows "round_mag F x \<le> round_mag F y"
proof (cases "0 < x")
  case False
  then show ?thesis using round_mag_nonneg by (simp add: round_mag_def)
next
  case pos: True
  then have ypos: "0 < y" using assms by simp
  have ex: "expo x \<le> expo y" using expo_mono [OF pos assms] .
  show ?thesis
  proof (cases "max (expo x) (emin F) = max (expo y) (emin F)")
    case True
    then have "ulp F x = ulp F y" by (simp add: ulp_def)
    moreover have "round_even (x / ulp F y) \<le> round_even (y / ulp F y)"
      using assms ulp_pos [of y] by (intro round_even_mono) (simp add: divide_right_mono)
    ultimately show ?thesis using pos ypos ulp_pos [of y] by (simp add: round_mag_def)
  next
    case False
    then have e: "max (expo x) (emin F) + 1 \<le> expo y" "emin F < expo y" using ex by auto
    have "round_mag F x \<le> 2 powi (max (expo x) (emin F) + 1)" using round_mag_le_next [OF pos] .
    also have "\<dots> \<le> 2 powi expo y" using e(1) by (simp only: powi_le_iff)
    also have "\<dots> \<le> round_mag F y" using round_mag_ge_expo [OF ypos e(2)] .
    finally show ?thesis .
  qed
qed

text \<open>The integers of the format's precision, scaled by powers of two, are its values.\<close>

lemma rnd_exact:
  assumes m: "\<bar>m\<bar> < 2 ^ prec F" and k: "emin F - int (prec F) + 1 \<le> k" "int (prec F) + k \<le> emax F + 1"
  shows "rnd F (of_int m * 2 powi k) = Fin (of_int m * 2 powi k)"
proof (cases "m = 0")
  case True
  then show ?thesis by (simp add: rnd_def round_mag_def not_le)
next
  case False
  define x where "x = of_int m * (2::rat) powi k"
  have ax: "\<bar>x\<bar> = of_int \<bar>m\<bar> * 2 powi k" by (simp add: x_def abs_mult)
  have "0 < \<bar>x\<bar>" using False by (simp add: x_def)
  then have r: "round_mag F \<bar>x\<bar> = \<bar>x\<bar>" using round_mag_exact [OF _ ax m k(1)] by simp
  have "of_int \<bar>m\<bar> < (2::rat) ^ prec F" using m by (metis of_int_less_iff of_int_numeral of_int_power)
  then have "\<bar>x\<bar> < 2 ^ prec F * 2 powi k" unfolding ax by simp
  also have "(2::rat) ^ prec F * 2 powi k = 2 powi (int (prec F) + k)" by (simp add: power_int_add)
  also have "\<dots> \<le> 2 powi (emax F + 1)" using k(2) by (simp only: powi_le_iff)
  finally show ?thesis unfolding x_def [symmetric] using r by (simp add: rnd_def Let_def)
qed

lemma fl_of_int_exact: "\<bar>i\<bar> < 2 ^ prec F \<Longrightarrow> fl_of_int F i = Fin (of_int i)"
  using rnd_exact [of i 0] range prec by (simp add: fl_of_int_def)

lemma rnd_mono_Fin:
  assumes "x \<le> y" "rnd F x = Fin u" "rnd F y = Fin v"
  shows "u \<le> v"
proof -
  have u: "u = (if x < 0 then - round_mag F \<bar>x\<bar> else round_mag F \<bar>x\<bar>)"
    and v: "v = (if y < 0 then - round_mag F \<bar>y\<bar> else round_mag F \<bar>y\<bar>)"
    using assms(2,3) by (auto simp: rnd_def Let_def split: if_splits)
  consider "0 \<le> x" | "x < 0" "0 \<le> y" | "y < 0" using assms(1) by linarith
  then show ?thesis
  proof cases
    case 1
    then show ?thesis using u v assms(1) round_mag_mono [of x y] by simp
  next
    case 2
    then show ?thesis using u v round_mag_nonneg [of "\<bar>x\<bar>"] round_mag_nonneg [of "\<bar>y\<bar>"] by simp
  next
    case 3
    then show ?thesis using u v assms(1) round_mag_mono [of "- y" "- x"] by simp
  qed
qed

text \<open>A normal number is at most doubled.\<close>

lemma rnd_le_double:
  assumes "0 \<le> x" "rnd F x = Fin u" "x = 0 \<or> 2 powi emin F \<le> x"
  shows "u \<le> 2 * x"
proof (cases "x = 0")
  case True
  then show ?thesis using assms(2) by (simp add: rnd_def round_mag_def Let_def split: if_splits)
next
  case False
  then have x: "0 < x" "2 powi emin F \<le> x" using assms by auto
  have "(2::rat) powi emin F < 2 powi (expo x + 1)" using x(2) expo_bounds(2) [OF x(1)] by linarith
  then have "max (expo x) (emin F) = expo x" by (simp only: powi_less_iff)
  then have "round_mag F x \<le> 2 powi (expo x + 1)" using round_mag_le_next [OF x(1)] by simp
  also have "\<dots> = 2 * 2 powi expo x" by (simp add: power_int_add)
  also have "\<dots> \<le> 2 * x" using expo_bounds(1) [OF x(1)] by simp
  finally show ?thesis using assms(2) x(1) by (simp add: rnd_def Let_def split: if_splits)
qed

text \<open>A number between two values of the format is rounded to a value between them.\<close>

lemma rnd_between:
  assumes ab: "a \<le> x" "x \<le> b" and a: "rnd F a = Fin a" and b: "rnd F b = Fin b"
  shows "\<exists>u. rnd F x = Fin u \<and> a \<le> u \<and> u \<le> b"
proof -
  have lim: "round_mag F \<bar>a\<bar> < 2 powi (emax F + 1)" "round_mag F \<bar>b\<bar> < 2 powi (emax F + 1)"
    using a b by (auto simp: rnd_def Let_def split: if_splits)
  have "\<bar>x\<bar> \<le> \<bar>a\<bar> \<or> \<bar>x\<bar> \<le> \<bar>b\<bar>" using ab by linarith
  then have "round_mag F \<bar>x\<bar> < 2 powi (emax F + 1)"
    using round_mag_mono [of "\<bar>x\<bar>" "\<bar>a\<bar>"] round_mag_mono [of "\<bar>x\<bar>" "\<bar>b\<bar>"] lim by linarith
  then obtain u where u: "rnd F x = Fin u" by (auto simp: rnd_def Let_def)
  with rnd_mono_Fin [OF ab(1) a u] rnd_mono_Fin [OF ab(2) u b] show ?thesis by blast
qed

lemma rnd_nonneg:
  assumes "0 \<le> x"
  shows "rnd F x = Inf False \<or> (\<exists>u. rnd F x = Fin u \<and> 0 \<le> u)"
  using assms round_mag_nonneg [of x] by (auto simp: rnd_def Let_def)

end

interpretation single: float_format binary32
  by unfold_locales (simp_all add: binary32_def)

interpretation double: float_format binary64
  by unfold_locales (simp_all add: binary64_def)

end
