(* ===== verification/Env.thy ===== *)
theory Env
  imports Util Cfloat
begin

text \<open>
  The limits of a process come from two environment variables of the form
  \<open>minor=value\<close> (\<^verbatim>\<open>src/env.c\<close>); sizes have an optional binary suffix
  (\<open>iec_to_bytes\<close> of \<^verbatim>\<open>src/util.c\<close>). The theory models the parsers, \<open>strtod\<close> included,
  and shows what they read from a printed limit.
\<close>

subsection \<open>Floating-point literals\<close>

definition to_lower :: "char \<Rightarrow> char" where
  "to_lower c = (let n = of_char c :: nat in if 65 \<le> n \<and> n \<le> 90 then char_of (n + 32) else c)"

definition has_prefix :: "string \<Rightarrow> string \<Rightarrow> bool" where
  "has_prefix pat s \<longleftrightarrow> map to_lower (take (length pat) s) = pat"

definition is_hex :: "char \<Rightarrow> bool" where
  "is_hex c \<longleftrightarrow> (let n = of_char (to_lower c) :: nat in is_digit c \<or> (97 \<le> n \<and> n \<le> 102))"

definition hex_val :: "char \<Rightarrow> nat" where
  "hex_val c = (if is_digit c then digit_val c else of_char (to_lower c) - 87)"

text \<open>
  The mantissa of a literal in base \<open>b\<close>: its value, the number of digits read and the rest.
\<close>

definition scan_mantissa ::
  "nat \<Rightarrow> (char \<Rightarrow> bool) \<Rightarrow> (char \<Rightarrow> nat) \<Rightarrow> string \<Rightarrow> rat \<times> nat \<times> string" where
  "scan_mantissa b dig val s =
     (let ds = takeWhile dig s; s = dropWhile dig s;
          fs = (if s \<noteq> [] \<and> hd s = CHR ''.'' then takeWhile dig (tl s) else []);
          s = (if s \<noteq> [] \<and> hd s = CHR ''.'' \<and> (ds \<noteq> [] \<or> fs \<noteq> []) then dropWhile dig (tl s) else s);
          n = foldl (\<lambda>m c. int b * m + int (val c)) 0 (ds @ fs)
      in (of_int n / of_nat b ^ length fs, length ds + length fs, s))"

text \<open>An exponent after the letter \<open>mark\<close>, if there is one: its value and the rest.\<close>

definition scan_exponent :: "char \<Rightarrow> string \<Rightarrow> int \<times> string" where
  "scan_exponent mark s =
     (case s of
        [] \<Rightarrow> (0, s)
      | c # r \<Rightarrow>
          if to_lower c \<noteq> mark then (0, s)
          else let neg = (r \<noteq> [] \<and> hd r = CHR ''-'');
                   r = (if r \<noteq> [] \<and> (hd r = CHR ''-'' \<or> hd r = CHR ''+'') then tl r else r);
                   ds = takeWhile is_digit r
               in if ds = [] then (0, s)
                  else (if neg then - int (dec_value ds) else int (dec_value ds), dropWhile is_digit r))"

text \<open>
  The magnitude of a literal and the rest of the string, or \<open>None\<close> where there is no
  literal: infinity and NaN by name, hexadecimal and decimal numbers.
\<close>

definition is_nchar :: "char \<Rightarrow> bool" where
  "is_nchar c \<longleftrightarrow> (let n = of_char (to_lower c) :: nat in is_digit c \<or> (97 \<le> n \<and> n \<le> 122) \<or> n = 95)"

definition scan_magnitude :: "string \<Rightarrow> (cfloat \<times> string) option" where
  "scan_magnitude s =
     (if has_prefix ''infinity'' s then Some (Inf False, drop 8 s)
      else if has_prefix ''inf'' s then Some (Inf False, drop 3 s)
      else if has_prefix ''nan'' s then
        (let r = drop 3 s; q = dropWhile is_nchar (tl r) in
         Some (NaN, if r \<noteq> [] \<and> hd r = CHR ''('' \<and> q \<noteq> [] \<and> hd q = CHR '')'' then tl q else r))
      else case scan_mantissa 16 is_hex hex_val (drop 2 s) of (m, n, r) \<Rightarrow>
        if has_prefix ''0x'' s \<and> 0 < n then
          (case scan_exponent CHR ''p'' r of (e, r) \<Rightarrow> Some (rnd binary64 (m * 2 powi e), r))
        else case scan_mantissa 10 is_digit digit_val s of (m, n, r) \<Rightarrow>
          if n = 0 then None
          else case scan_exponent CHR ''e'' r of (e, r) \<Rightarrow> Some (rnd binary64 (m * 10 powi e), r))"

fun fl_neg :: "cfloat \<Rightarrow> cfloat" where
  "fl_neg (Fin x) = Fin (- x)"
| "fl_neg (Inf s) = Inf (\<not> s)"
| "fl_neg NaN = NaN"

definition strtod :: "string \<Rightarrow> cfloat \<times> string" where
  "strtod s =
     (let t = dropWhile is_space s;
          neg = (t \<noteq> [] \<and> hd t = CHR ''-'');
          t = (if t \<noteq> [] \<and> (hd t = CHR ''-'' \<or> hd t = CHR ''+'') then tl t else t)
      in case scan_magnitude t of
           None \<Rightarrow> (Fin 0, s)
         | Some (v, r) \<Rightarrow> (if neg then fl_neg v else v, r))"

subsection \<open>Sizes and limits\<close>

definition iec_to_bytes :: "string \<Rightarrow> u64 res" where
  "iec_to_bytes iec_value =
     (case strtod iec_value of (v, endptr) \<Rightarrow>
        let c = (if endptr = [] then NUL else hd endptr);
            v = (if c = CHR ''K'' \<or> c = CHR ''k'' then fl_mul binary64 v (Fin 1024)
                 else if c = CHR ''M'' \<or> c = CHR ''m'' then fl_mul binary64 v (Fin (1024 * 1024))
                 else if c = CHR ''G'' \<or> c = CHR ''g'' then fl_mul binary64 v (Fin (1024 * 1024 * 1024))
                 else if c = CHR ''T'' \<or> c = CHR ''t'' then fl_mul binary64 v (Fin (1024 * 1024 * 1024 * 1024))
                 else v)
        in fl_to_size v)"

text \<open>
  The value of the environment variable is an argument. \<open>minor\<close> is \<open>None\<close> for a null
  pointer and holds the pointee otherwise; the result has the new pointee and the text of
  the limit.
\<close>

definition get_limit :: "string option \<Rightarrow> u32 option \<Rightarrow> int \<times> u32 option \<times> string" where
  "get_limit str mnr =
     (case str of
        None \<Rightarrow> (- 1, mnr, [])
      | Some s \<Rightarrow>
          (case scan_limit s of (n, v, d) \<Rightarrow>
             let data = (case d of None \<Rightarrow> [] | Some d \<Rightarrow> d) in
             if n \<noteq> 2 \<or> length data = 0 then (- 1, mnr, data)
             else (0, (case mnr of None \<Rightarrow> None | Some _ \<Rightarrow> v), data)))"

definition get_mem_limit :: "string option \<Rightarrow> u32 option \<Rightarrow> (int \<times> u32 option \<times> u64 option) res" where
  "get_mem_limit env mnr =
     (case get_limit env mnr of (ret, mnr, tmp) \<Rightarrow>
        if ret \<noteq> 0 then Inr (ret, mnr, None)
        else bindR (iec_to_bytes tmp) (\<lambda>limit. Inr (0, mnr, Some limit)))"

definition get_core_limit :: "string option \<Rightarrow> u32 option \<Rightarrow> int \<times> u32 option \<times> u64 option" where
  "get_core_limit env mnr =
     (case get_limit env mnr of (ret, mnr, tmp) \<Rightarrow>
        if ret \<noteq> 0 then (ret, mnr, None)
        else (0, mnr, Some (word_of_int (atoi tmp))))"

subsection \<open>Reading a printed number\<close>

text \<open>A character that can follow the digits of a decimal literal without becoming part of it.\<close>

definition ends_literal :: "string \<Rightarrow> bool" where
  "ends_literal r \<longleftrightarrow> r = [] \<or> (\<not> is_digit (hd r) \<and> hd r \<noteq> CHR ''.'' \<and> to_lower (hd r) \<noteq> CHR ''e'' \<and>
     to_lower (hd r) \<noteq> CHR ''x'')"

lemma to_lower_digit: "is_digit c \<Longrightarrow> to_lower c = c"
  by (auto simp: is_digit_def to_lower_def Let_def)

lemma not_digits: "\<not> is_digit CHR ''i''" "\<not> is_digit CHR ''n''" "\<not> is_digit CHR ''x''"
  by (simp_all add: is_digit_def)

lemma has_prefix_digit:
  assumes "is_digit c" "\<not> is_digit p"
  shows "\<not> has_prefix (p # ps) (c # s)"
  using assms by (auto simp: has_prefix_def to_lower_digit)

lemma not_hex_literal:
  assumes "\<forall>c \<in> set ds. is_digit c" "ds \<noteq> []" "ends_literal r"
  shows "\<not> has_prefix ''0x'' (ds @ r)"
proof -
  obtain c cs where ds: "ds = c # cs" using assms(2) by (cases ds) auto
  consider d es where "cs @ r = d # es" "is_digit d \<or> to_lower d \<noteq> CHR ''x''" | "cs @ r = []"
  proof (cases cs)
    case Nil
    then show thesis using that assms(3) by (cases r) (auto simp: ends_literal_def)
  next
    case (Cons d es)
    then show thesis using that assms(1) ds by auto
  qed
  then show ?thesis
  proof cases
    case 1
    then have "to_lower d \<noteq> CHR ''x''" using to_lower_digit not_digits(3) by auto
    with 1(1) ds show ?thesis by (simp add: has_prefix_def)
  qed (simp add: ds has_prefix_def)
qed

lemma foldl_dec_value:
  "foldl (\<lambda>m c. int 10 * m + int (digit_val c)) (int z) ds = int (foldl (\<lambda>m c. 10 * m + digit_val c) z ds)"
proof (induction ds arbitrary: z)
  case (Cons c ds)
  have "int 10 * int z + int (digit_val c) = int (10 * z + digit_val c)" by simp
  then show ?case using Cons.IH [of "10 * z + digit_val c"] by (simp only: foldl_Cons)
qed simp

lemma scan_mantissa_decimal:
  assumes "\<forall>c \<in> set ds. is_digit c" "ends_literal r"
  shows "scan_mantissa 10 is_digit digit_val (ds @ r) = (of_nat (dec_value ds), length ds, r)"
proof -
  have "takeWhile is_digit (ds @ r) = ds" "dropWhile is_digit (ds @ r) = r"
    using assms by (cases r; auto simp: ends_literal_def)+
  moreover have "r = [] \<or> hd r \<noteq> CHR ''.''" using assms(2) by (auto simp: ends_literal_def)
  ultimately show ?thesis
    using foldl_dec_value [of 0 ds] by (auto simp: scan_mantissa_def Let_def dec_value_def)
qed

lemma scan_exponent_none: "ends_literal r \<Longrightarrow> scan_exponent CHR ''e'' r = (0, r)"
  by (cases r) (auto simp: scan_exponent_def ends_literal_def)

lemma rnd_nat_exact: "n < 2 ^ 53 \<Longrightarrow> rnd binary64 (of_nat n) = Fin (of_nat n)"
  using double.rnd_exact [of "int n" 0] by (simp add: binary64_def)

lemma strtod_dec_of:
  assumes n: "n < 2 ^ 53" and r: "ends_literal r"
  shows "strtod (dec_of n @ r) = (Fin (of_nat n), r)"
proof -
  have digits: "\<forall>c \<in> set (dec_of n). is_digit c" using dec_of_digits by blast
  obtain c s where cs: "dec_of n = c # s" by (cases "dec_of n") auto
  have c: "is_digit c" "\<not> is_space c" "c \<noteq> CHR ''-''" "c \<noteq> CHR ''+''"
    using dec_of_digits [of c n] cs by auto
  have names: "\<not> has_prefix ''infinity'' (dec_of n @ r)" "\<not> has_prefix ''inf'' (dec_of n @ r)"
    "\<not> has_prefix ''nan'' (dec_of n @ r)"
    unfolding cs append_Cons by (intro has_prefix_digit [OF c(1)] not_digits)+
  have "scan_magnitude (dec_of n @ r) = Some (Fin (of_nat n), r)"
    using names not_hex_literal [OF digits _ r] scan_mantissa_decimal [OF digits r]
      scan_exponent_none [OF r] rnd_nat_exact [OF n]
    by (simp add: scan_magnitude_def split: prod.splits)
  then show ?thesis using cs c by (simp add: strtod_def Let_def)
qed

subsection \<open>Binary suffixes\<close>

text \<open>The meaning of a suffix: the number of bits the value is shifted by.\<close>

definition iec_shift :: "string \<Rightarrow> nat option" where
  "iec_shift sfx =
     (if sfx = [] then Some 0 else if sfx \<in> {''K'', ''k''} then Some 10 else if sfx \<in> {''M'', ''m''} then Some 20
      else if sfx \<in> {''G'', ''g''} then Some 30 else if sfx \<in> {''T'', ''t''} then Some 40 else None)"

lemma iec_shift_elim:
  assumes "iec_shift sfx = Some k"
  obtains "sfx = []" "k = 0"
  | "sfx = [CHR ''K'']" "k = 10" | "sfx = [CHR ''k'']" "k = 10" | "sfx = [CHR ''M'']" "k = 20" | "sfx = [CHR ''m'']" "k = 20"
  | "sfx = [CHR ''G'']" "k = 30" | "sfx = [CHR ''g'']" "k = 30" | "sfx = [CHR ''T'']" "k = 40" | "sfx = [CHR ''t'']" "k = 40"
  using assms unfolding iec_shift_def by (simp split: if_split_asm) blast+

lemma to_lower_suffix:
  "to_lower CHR ''K'' = CHR ''k''" "to_lower CHR ''M'' = CHR ''m''" "to_lower CHR ''G'' = CHR ''g''" "to_lower CHR ''T'' = CHR ''t''"
  "to_lower CHR ''k'' = CHR ''k''" "to_lower CHR ''m'' = CHR ''m''" "to_lower CHR ''g'' = CHR ''g''" "to_lower CHR ''t'' = CHR ''t''"
  by code_simp+

lemma suffix_chars:
  "ends_literal (CHR ''K'' # r)" "ends_literal (CHR ''k'' # r)" "ends_literal (CHR ''M'' # r)" "ends_literal (CHR ''m'' # r)"
  "ends_literal (CHR ''G'' # r)" "ends_literal (CHR ''g'' # r)" "ends_literal (CHR ''T'' # r)" "ends_literal (CHR ''t'' # r)"
  "ends_literal []"
  by (simp_all add: ends_literal_def is_digit_def to_lower_suffix)

lemma suffix_no_space:
  "\<not> is_space CHR ''K''" "\<not> is_space CHR ''k''" "\<not> is_space CHR ''M''" "\<not> is_space CHR ''m''"
  "\<not> is_space CHR ''G''" "\<not> is_space CHR ''g''" "\<not> is_space CHR ''T''" "\<not> is_space CHR ''t''"
  by (simp_all add: is_space_def)

lemma iec_shift_cases:
  assumes "iec_shift sfx = Some k"
  shows "ends_literal sfx" "k \<le> 40" "\<forall>c \<in> set sfx. \<not> is_space c" "length sfx \<le> 1"
  using assms by (elim iec_shift_elim; simp add: suffix_chars suffix_no_space)+

lemma fl_mul_shift:
  assumes "n < 2 ^ 53" "k \<le> 40"
  shows "fl_mul binary64 (Fin (of_nat n)) (Fin (2 ^ k)) = Fin (of_nat (n * 2 ^ k))"
  using double.rnd_exact [of "int n" "int k"] assms by (simp add: binary64_def)

lemma fl_to_size_nat: "v < 2 ^ 64 \<Longrightarrow> fl_to_size (Fin (of_nat v)) = Inr (word_of_nat v)"
  by (simp add: trunc_def)

lemma iec_to_bytes_shift:
  assumes v: "strtod s = (v, sfx)" and k: "iec_shift sfx = Some k"
  shows "iec_to_bytes s = fl_to_size (if k = 0 then v else fl_mul binary64 v (Fin (2 ^ k)))"
  using k by (elim iec_shift_elim) (simp_all add: iec_to_bytes_def v)

lemma iec_to_bytes_printed:
  assumes n: "n < 2 ^ 53" and k: "iec_shift sfx = Some k" and fits: "n * 2 ^ k < 2 ^ 64"
  shows "iec_to_bytes (dec_of n @ sfx) = Inr (word_of_nat (n * 2 ^ k))"
proof -
  note sfx = iec_shift_cases [OF k]
  have "iec_to_bytes (dec_of n @ sfx) = fl_to_size (Fin (of_nat (n * 2 ^ k)))"
    using iec_to_bytes_shift [OF strtod_dec_of [OF n sfx(1)] k] fl_mul_shift [OF n sfx(2)] by (simp del: of_nat_mult of_nat_power)
  then show ?thesis using fl_to_size_nat [OF fits] by (simp only:)
qed

subsection \<open>Reading a printed limit\<close>

lemma strtoul_dec_of:
  assumes "m < 2 ^ 64" "rest = [] \<or> \<not> is_digit (hd rest)"
  shows "strtoul (dec_of m @ rest) = word_of_nat m"
  using scan_number_dec_of [OF assms(2), of m] assms(1)
  by (simp add: strtoul_def Let_def)

lemma scan_limit_printed:
  assumes m: "m < 2 ^ 32" and w: "w \<noteq> []" "\<forall>c \<in> set w. \<not> is_space c"
  shows "scan_limit (dec_of m @ CHR ''='' # w) = (2, Some (word_of_nat m), Some (take 15 w))"
proof -
  have eq: "\<not> is_digit CHR ''=''" by (simp add: is_digit_def)
  have "strtoul (dec_of m @ CHR ''='' # w) = word_of_nat m"
    using m eq by (intro strtoul_dec_of) auto
  then have u: "ucast (strtoul (dec_of m @ CHR ''='' # w)) = (word_of_nat m :: u32)"
    using m by (simp add: unsigned_of_nat take_bit_nat_eq_self)
  have "dropWhile is_space w = w" using w by (cases w) auto
  moreover have "takeWhile (\<lambda>c. \<not> is_space c) w = w" using w by simp
  ultimately show ?thesis
    using scan_number_dec_of [of "CHR ''='' # w" m] eq u w(1) by (simp add: scan_limit_def Let_def takeWhile_eq_all_conv [THEN iffD2])
qed

lemma get_limit_printed:
  assumes "m < 2 ^ 32" "w \<noteq> []" "\<forall>c \<in> set w. \<not> is_space c"
  shows "get_limit (Some (dec_of m @ CHR ''='' # w)) (Some old) = (0, Some (word_of_nat m), take 15 w)"
    "get_limit (Some (dec_of m @ CHR ''='' # w)) None = (0, None, take 15 w)"
  using scan_limit_printed [OF assms] assms(2) by (simp_all add: get_limit_def)

lemma dec_of_no_space: "\<forall>c \<in> set (dec_of n). \<not> is_space c"
  using dec_of_digits by blast

lemma get_mem_limit_text:
  assumes "m < 2 ^ 32" "w \<noteq> []" "\<forall>c \<in> set w. \<not> is_space c"
  shows "get_mem_limit (Some (dec_of m @ ''='' @ w)) (Some old) =
    bindR (iec_to_bytes (take 15 w)) (\<lambda>limit. Inr (0, Some (word_of_nat m), Some limit))"
  using get_limit_printed(1) [OF assms] by (simp add: get_mem_limit_def)

subsection \<open>Properties of the limits\<close>

text \<open>C8: A printed memory limit is read back exactly: for every minor number, every count below
  \<open>2 ^ 53\<close> and every suffix whose product fits into 64 bits, \<open>get_mem_limit\<close> returns the minor
  number and the size in bytes, as long as count and suffix have at most 15 characters.\<close>

theorem mem_limit_roundtrip:
  assumes "m < 2 ^ 32" and n: "n < 2 ^ 53" and k: "iec_shift sfx = Some k" and fits: "n * 2 ^ k < 2 ^ 64"
    and len: "length (dec_of n @ sfx) \<le> 15"
  shows "get_mem_limit (Some (dec_of m @ ''='' @ dec_of n @ sfx)) (Some old) =
    Inr (0, Some (word_of_nat m), Some (word_of_nat (n * 2 ^ k)))"
  using get_mem_limit_text [OF assms(1), of "dec_of n @ sfx" old] iec_shift_cases(3) [OF k] dec_of_no_space [of n]
    iec_to_bytes_printed [OF n k fits] len
  by (auto simp del: of_nat_mult of_nat_power)

theorem mem_limit_roundtrip_witness:
  "get_mem_limit (Some (dec_of 3 @ ''='' @ dec_of 16 @ ''G'')) (Some 0) = Inr (0, Some 3, Some 17179869184)"
  using mem_limit_roundtrip [of 3 16 "''G''" 30 0]
  by (simp add: iec_shift_def dec_of_def digits_base.simps)

text \<open>C36: A printed core limit is read back exactly, and the minor number of the variable is
  ignored by a caller that passes no place for it.\<close>

theorem core_limit_roundtrip:
  assumes "m < 2 ^ 32" and n: "n < 2 ^ 31"
  shows "get_core_limit (Some (dec_of m @ ''='' @ dec_of n)) None = (0, None, Some (word_of_nat n))"
proof -
  have "length (dec_of n) \<le> 10" by (rule dec_of_length [of n 10]) (use n in simp_all)
  then have "get_limit (Some (dec_of m @ CHR ''='' # dec_of n)) None = (0, None, dec_of n)"
    using get_limit_printed(2) [OF assms(1), of "dec_of n"] dec_of_no_space [of n] by simp
  moreover have "atoi (dec_of n) = int n"
    using scan_number_dec_of [of "[]" n] n by (simp add: atoi_def strtol_def to_int_def signed_take_bit_int_eq_self)
  ultimately show ?thesis by (simp add: get_core_limit_def)
qed

theorem core_limit_roundtrip_witness:
  "get_core_limit (Some (dec_of 0 @ ''='' @ dec_of 50)) None = (0, None, Some 50)"
  using core_limit_roundtrip [of 0 50] by simp

text \<open>Without a well-formed variable there is no limit: when the variable is unset, has no
  number in front, no equals sign right behind it, or nothing behind that, both parsers return
  -1 and leave the caller's minor number alone.\<close>

lemma limit_malformed:
  assumes "env = None \<or> (\<exists>s. env = Some s \<and> fst (scan_limit s) \<noteq> 2)"
  shows "get_mem_limit env mnr = Inr (- 1, mnr, None) \<and> get_core_limit env mnr = (- 1, mnr, None)"
  using assms by (auto simp: get_mem_limit_def get_core_limit_def get_limit_def split: prod.splits)

lemma limit_malformed_witness:
  "get_mem_limit (Some (''16G'')) (Some 255) = Inr (- 1, Some 255, None)"
proof -
  have "fst (scan_limit ''16G'') \<noteq> 2"
    by (simp add: scan_limit_def scan_number_def is_space_def is_digit_def)
  then show ?thesis using limit_malformed [of "Some ''16G''" "Some 255"] by blast
qed

end
