(* ===== verification/Init.thy ===== *)
theory Init
  imports Accounting Env
begin

text \<open>
  The initialisation of the hook library (\<open>_init_device_prop\<close> of \<^verbatim>\<open>src/ioctl_hook.c\<close>). What
  the process finds in its environment is the record \<open>init_env\<close>: the two variables, the
  answers of the system calls on each shared-memory object and its content, the \<open>lstat\<close> of
  the process that owns the budget, the lines of \<open>/proc/<pid>/cgroup\<close> and the outcomes of the
  \<open>sem_wait\<close> calls. The object of the tokens is written by the monitor; its content is
  given when it is mapped and again when the wait has ended.
\<close>

subsection \<open>The environment and the static state\<close>

record init_env =
  ie_mem_limit :: "string option"
  ie_core_limit :: "string option"
  ie_pid :: int
  ie_shm :: "string \<Rightarrow> shm_calls"
  ie_fb :: "string \<Rightarrow> fb_info_t"
  ie_lstat :: "string \<Rightarrow> int \<times> int"
  ie_cgroup :: "string list option"
  ie_attr :: "string \<Rightarrow> token_attr_t"
  ie_attr_ready :: "string \<Rightarrow> token_attr_t"
  ie_sem_wait :: "(int \<times> int) list"

text \<open>
  The static object \<open>gpu_device\<close> before the initialisation, with its two list heads at the
  given addresses.
\<close>

definition gpu_device :: "addr \<Rightarrow> addr \<Rightarrow> hook_state" where
  "gpu_device heap_head rm_head =
     \<lparr>mu = False, major = NVIDIA_DEVICE_MAJOR, minor = NVIDIA_CTL_MINOR, fb_info = None, alloc_mem = 0,
      tokens = 0, attr = None, mem_limited = False, core_limited = False,
      heap_mem_list = heap_head, rm_mem_list = rm_head,
      links = [heap_head \<mapsto> \<lparr>lnext = 0, lprev = 0\<rparr>, rm_head \<mapsto> \<lparr>lnext = 0, lprev = 0\<rparr>],
      mem_ents = Map.empty, rm_ents = Map.empty\<rparr>"

definition zero_attr :: token_attr_t where
  "zero_attr = \<lparr>changed = False, inited = False, wait_time = \<lparr>tv_sec = 0, tv_nsec = 0\<rparr>,
     params = \<lparr>add_per_cycle = 0, core_limit = 0, mod_times = 0, avg_launchs = [0, 0], launch_idx = 0,
       launch_times = 0\<rparr>, ready = 0\<rparr>"

text \<open>
  \<open>sem_init\<close> rejects values above \<open>SEM_VALUE_MAX\<close>, the largest \<open>int\<close>; a negative \<open>int\<close>
  argument becomes an unsigned value above it.
\<close>

definition sem_init :: "int \<Rightarrow> int" where
  "sem_init v = (if 0 \<le> v then 0 else - 1)"

text \<open>
  The wait loop: \<open>sem_wait\<close> is called again while a signal interrupts it. \<open>None\<close> means that
  the given outcomes are used up and the call has not returned.
\<close>

fun sem_wait_loop :: "(int \<times> int) list \<Rightarrow> int option" where
  "sem_wait_loop [] = None"
| "sem_wait_loop ((ret, err) # os) = (if ret = - 1 \<and> err = EINTR then sem_wait_loop os else Some ret)"

subsection \<open>The initialisation\<close>

text \<open>The memory part: map the budget, take it over if its owner is gone, make the lists.\<close>

definition fb_need_init :: "init_env \<Rightarrow> fb_info_t \<Rightarrow> bool" where
  "fb_need_init ie fb \<longleftrightarrow> pid fb = 0 \<or>
     (case ie_lstat ie (proc_exe_path (pid fb)) of (ret, err) \<Rightarrow> ret < 0 \<and> err = ENOENT)"

definition init_mem :: "init_env \<Rightarrow> u64 \<Rightarrow> hook_state \<Rightarrow> hook_state res" where
  "init_mem ie tmem st =
     (let path = fb_shm_path (minor st) in
      case create_shm_addr (ie_shm ie path) \<lparr>sd_fd = None, sd_addr = None\<rparr> of (a, sd, zeroed) \<Rightarrow>
        if a = NULL then Inl (ProcessExit (- 1))
        else if a = MAP_FAILED then Inl BadAccess
        else let fb = (if zeroed then zero_fb else ie_fb ie path);
                 fb = (if fb_need_init ie fb then fb\<lparr>total_mem := tmem, free_mem := tmem, pid := ie_pid ie\<rparr> else fb)
        in bindR (deref (INIT_LIST_HEAD (links st) (rm_mem_list st))) (\<lambda>h.
           bindR (deref (INIT_LIST_HEAD h (heap_mem_list st))) (\<lambda>h.
             Inr (st\<lparr>fb_info := Some fb, links := h\<rparr>))))"

text \<open>
  The token part: map the object of the container, wait until the monitor has filled it,
  and start with as many tokens as the limit says. The boolean of the result says whether
  the thread that posts tokens was started.
\<close>

definition init_tokens :: "init_env \<Rightarrow> hook_state \<Rightarrow> (bool \<times> hook_state) option res" where
  "init_tokens ie st =
     bindR (get_cgroup_id (ie_cgroup ie) (replicate 4096 NUL) 4096) (\<lambda>(ret, cgroup_id).
       if ret < 0 then Inl (ProcessExit (- 1))
       else let path = token_shm_path (minor st) (cstr cgroup_id) in
         case create_shm_addr (ie_shm ie path) \<lparr>sd_fd = None, sd_addr = None\<rparr> of (a, sd, zeroed) \<Rightarrow>
           if a = NULL then Inl (ProcessExit (- 1))
           else if a = MAP_FAILED then Inl BadAccess
           else if sem_init 0 < 0 then Inl (ProcessExit (- 1))
           else let ta = (if zeroed then zero_attr else ie_attr ie path) in
             case (if \<not> inited ta then sem_wait_loop (ie_sem_wait ie) else Some 0) of
               None \<Rightarrow> Inr None
             | Some ret \<Rightarrow>
                 if ret = - 1 then Inl (ProcessExit (- 1))
                 else let ta = (if inited ta then ta\<lparr>ready := 0\<rparr> else ie_attr_ready ie path) in
                   if sem_init (core_limit (params ta)) < 0 then Inl (ProcessExit (- 1))
                   else Inr (Some (True, st\<lparr>tokens := nat (core_limit (params ta)), attr := Some ta\<rparr>)))"

definition init_core :: "init_env \<Rightarrow> hook_state \<Rightarrow> (bool \<times> hook_state) option res" where
  "init_core ie st =
     (case get_core_limit (ie_core_limit ie) None of (ret, m, limit) \<Rightarrow>
        let st = (if ret = 0 then st\<lparr>core_limited := True\<rparr> else st) in
        if \<not> core_limited st then Inr (Some (False, st)) else init_tokens ie st)"

definition init_device_prop_once :: "init_env \<Rightarrow> hook_state \<Rightarrow> (bool \<times> hook_state) option res" where
  "init_device_prop_once ie st =
     bindR (get_mem_limit (ie_mem_limit ie) (Some (minor st))) (\<lambda>(ret, m, tmem).
       if ret \<noteq> 0 then Inr (Some (False, st))
       else bindR (deref tmem) (\<lambda>tmem.
         bindR (init_mem ie tmem (st\<lparr>minor := (case m of None \<Rightarrow> minor st | Some m \<Rightarrow> m), mem_limited := True\<rparr>)) (\<lambda>st.
           init_core ie st)))"

text \<open>\<open>pthread_once\<close> runs its routine the first time only; the flag is its control variable.\<close>

definition init_device_prop :: "init_env \<Rightarrow> bool \<times> hook_state \<Rightarrow> (bool \<times> bool \<times> hook_state) option res" where
  "init_device_prop ie s =
     (case s of (once, st) \<Rightarrow>
        if once then Inr (Some (True, False, st))
        else bindR (init_device_prop_once ie st) (\<lambda>r. Inr (map_option (Pair True) r)))"

subsection \<open>The state after the initialisation\<close>

lemma get_limit_cases:
  assumes "get_mem_limit env mnr = Inr (ret, m, tmem)"
  shows "ret = 0 \<and> (\<exists>t. tmem = Some t) \<or> ret = - 1 \<and> m = mnr \<and> tmem = None"
  using assms
  by (auto simp: get_mem_limit_def get_limit_def bindR_eq_Inr Let_def split: prod.splits option.splits if_splits)

text \<open>The budget a process starts with: its own limit, or what a living owner has left.\<close>

definition first_budget :: "init_env \<Rightarrow> u32 \<Rightarrow> u64 \<Rightarrow> fb_info_t" where
  "first_budget ie m tmem =
     (let path = fb_shm_path m; old = (if 0 \<le> excl_open (ie_shm ie path) then zero_fb else ie_fb ie path)
      in if fb_need_init ie old then old\<lparr>total_mem := tmem, free_mem := tmem, pid := ie_pid ie\<rparr> else old)"

lemma init_mem_effect:
  assumes shm: "shm_ok (ie_shm ie (fb_shm_path (minor st)))"
    and heads: "heap_mem_list st \<in> dom (links st)" "rm_mem_list st \<in> dom (links st)" "heap_mem_list st \<noteq> rm_mem_list st"
  shows "\<exists>h. init_mem ie tmem st = Inr (st\<lparr>fb_info := Some (first_budget ie (minor st) tmem), links := h\<rparr>) \<and>
    (\<forall>fb. wf_state (st\<lparr>fb_info := fb, links := h\<rparr>) [] [])"
proof -
  obtain h1 where h1: "INIT_LIST_HEAD (links st) (rm_mem_list st) = Some h1" "dlist h1 (rm_mem_list st) []"
    "framed {rm_mem_list st} (links st) h1"
    using INIT_LIST_HEAD_dlist [OF heads(2)] by metis
  have "heap_mem_list st \<in> dom h1" using heads(1) framed_dom [OF h1(3)] by simp
  then obtain h2 where h2: "INIT_LIST_HEAD h1 (heap_mem_list st) = Some h2" "dlist h2 (heap_mem_list st) []"
    "framed {heap_mem_list st} h1 h2"
    using INIT_LIST_HEAD_dlist by metis
  have "dlist h2 (rm_mem_list st) []"
    using dlist_framed [OF h1(2) h2(3)] heads(3) by (simp add: cells_def)
  then have wf: "wf_state (st\<lparr>fb_info := fb, links := h2\<rparr>) [] []" for fb
    unfolding wf_state_def
    by (intro exI [of _ "[]"]) (use h2(2) heads(3) in \<open>auto simp: entries_def entry_cells_def cells_def\<close>)
  have "mmap_ret (ie_shm ie (fb_shm_path (minor st))) \<noteq> NULL" "mmap_ret (ie_shm ie (fb_shm_path (minor st))) \<noteq> MAP_FAILED"
    using shm by (auto simp: shm_ok_def)
  then have "init_mem ie tmem st = Inr (st\<lparr>fb_info := Some (first_budget ie (minor st) tmem), links := h2\<rparr>)"
    using create_shm_addr_ok [OF shm, of "\<lparr>sd_fd = None, sd_addr = None\<rparr>"] h1(1) h2(1)
    by (auto simp: init_mem_def first_budget_def Let_def)
  then show ?thesis using wf by blast
qed

text \<open>The whole memory part, for a process with a readable limit.\<close>

definition empty_ledger :: "fb_info_t \<Rightarrow> ledger" where
  "empty_ledger fb = \<lparr>l_total = total_mem fb, l_free = free_mem fb, l_alloc = 0, blocks = [], devs = []\<rparr>"

lemma minor_gpu_device: "minor (gpu_device hh rh) = NVIDIA_CTL_MINOR"
  by (simp add: gpu_device_def)

lemma init_once_mem:
  assumes mem: "get_mem_limit (ie_mem_limit ie) (Some NVIDIA_CTL_MINOR) = Inr (0, Some m, Some tmem)"
    and shm: "shm_ok (ie_shm ie (fb_shm_path m))" and heads: "hh \<noteq> rh"
  shows "\<exists>st. init_device_prop_once ie (gpu_device hh rh) = init_core ie st \<and>
    ledger_rel st (empty_ledger (first_budget ie m tmem)) \<and> mem_limited st \<and> \<not> core_limited st \<and>
    minor st = m \<and> attr st = None"
proof -
  let ?st = "(gpu_device hh rh)\<lparr>minor := m, mem_limited := True\<rparr>"
  have "heap_mem_list ?st \<in> dom (links ?st)" "rm_mem_list ?st \<in> dom (links ?st)" "heap_mem_list ?st \<noteq> rm_mem_list ?st"
    using heads by (auto simp: gpu_device_def)
  with shm init_mem_effect [of ie ?st tmem] obtain h where h:
    "init_mem ie tmem ?st = Inr (?st\<lparr>fb_info := Some (first_budget ie m tmem), links := h\<rparr>)"
    "wf_state (?st\<lparr>fb_info := Some (first_budget ie m tmem), links := h\<rparr>) [] []"
    by auto
  define st where "st = ?st\<lparr>fb_info := Some (first_budget ie m tmem), links := h\<rparr>"
  have "init_device_prop_once ie (gpu_device hh rh) = init_core ie st"
    using h(1) mem by (simp add: init_device_prop_once_def st_def minor_gpu_device)
  moreover have "\<not> mu st" "alloc_mem st = 0" "fb_info st = Some (first_budget ie m tmem)" "mem_limited st"
    "\<not> core_limited st" "minor st = m" "attr st = None"
    by (simp_all add: st_def gpu_device_def)
  moreover have "wf_state st [] []" using h(2) by (simp only: st_def)
  ultimately show ?thesis by (intro exI [of _ st]) (simp add: ledger_rel_def empty_ledger_def)
qed

text \<open>
  The token part, for an object of any content: an initialised one is used as it is, another one
  after the wait.
\<close>

lemma sem_wait_loop_signals: "sem_wait_loop (replicate n (- 1, EINTR) @ [(0, 0)]) = Some 0"
  by (induction n) simp_all

lemma init_tokens_effect:
  assumes cg: "get_cgroup_id (ie_cgroup ie) (replicate 4096 NUL) 4096 = Inr (0, buf)"
    and path: "path = token_shm_path (minor st) (cstr buf)" and tok: "shm_ok (ie_shm ie path)"
    and found: "found = (if 0 \<le> excl_open (ie_shm ie path) then zero_attr else ie_attr ie path)"
    and wait: "inited found \<or> ie_sem_wait ie = replicate n (- 1, EINTR) @ [(0, 0)]"
    and ta: "ta = (if inited found then found\<lparr>ready := 0\<rparr> else ie_attr_ready ie path)"
    and limit: "0 \<le> core_limit (params ta)"
  shows "init_tokens ie st = Inr (Some (True, st\<lparr>tokens := nat (core_limit (params ta)), attr := Some ta\<rparr>))"
proof -
  have "mmap_ret (ie_shm ie path) \<noteq> NULL" "mmap_ret (ie_shm ie path) \<noteq> MAP_FAILED" using tok by (auto simp: shm_ok_def)
  moreover have "\<not> inited found \<Longrightarrow> sem_wait_loop (ie_sem_wait ie) = Some 0" using wait sem_wait_loop_signals by auto
  ultimately show ?thesis
    using create_shm_addr_ok [OF tok, of "\<lparr>sd_fd = None, sd_addr = None\<rparr>"] cg limit found ta
    by (cases "0 \<le> excl_open (ie_shm ie path)"; cases "inited found") (auto simp: init_tokens_def Let_def sem_init_def path [symmetric])
qed

text \<open>An environment with a memory limit of 2 GiB on device 0 and a core limit of 30.\<close>

definition demo_calls :: shm_calls where
  "demo_calls = \<lparr>excl_open = 3, excl_errno = 0, plain_open = 0, ftruncate_ret = 0, mmap_ret = 4096\<rparr>"

definition demo_attr :: token_attr_t where
  "demo_attr = zero_attr\<lparr>inited := True, params := (params zero_attr)\<lparr>core_limit := 30, add_per_cycle := 1\<rparr>\<rparr>"

definition demo_init :: "string option \<Rightarrow> init_env" where
  "demo_init core =
     \<lparr>ie_mem_limit = Some (dec_of 0 @ ''='' @ dec_of 2 @ ''G''), ie_core_limit = core, ie_pid = 7,
      ie_shm = (\<lambda>_. demo_calls), ie_fb = (\<lambda>_. zero_fb), ie_lstat = (\<lambda>_. (0, 0)),
      ie_cgroup = Some ([] @ line_buf (''4:devices:/pod'' @ CHR ''/'' # ''5680'') [] # []),
      ie_attr = (\<lambda>_. zero_attr), ie_attr_ready = (\<lambda>_. demo_attr), ie_sem_wait = replicate 2 (- 1, EINTR) @ [(0, 0)]\<rparr>"

lemma demo_mem_limit:
  "get_mem_limit (ie_mem_limit (demo_init core)) (Some NVIDIA_CTL_MINOR) = Inr (0, Some 0, Some 2147483648)"
proof -
  have "iec_to_bytes (dec_of 2 @ ''G'') = Inr (word_of_nat (2 * 2 ^ 30))"
    by (rule iec_to_bytes_printed) (simp_all add: iec_shift_def)
  moreover have "take 15 (dec_of 2 @ ''G'') = dec_of 2 @ ''G''" by (simp add: dec_of_def digits_base.simps)
  moreover have "\<forall>c \<in> set (dec_of 2 @ ''G''). \<not> is_space c"
    using dec_of_no_space [of 2] by (auto simp: suffix_no_space)
  ultimately show ?thesis
    using get_mem_limit_text [of 0 "dec_of 2 @ ''G''" NVIDIA_CTL_MINOR] by (simp add: demo_init_def)
qed

lemma demo_shm: "shm_ok (ie_shm (demo_init core) path)"
  by (simp add: demo_init_def demo_calls_def shm_ok_def shm_opened_def MAP_FAILED_def)

text \<open>The same environment, with a token object that the monitor has already initialised; no wait ever ends.\<close>

definition demo_found :: "string option \<Rightarrow> init_env" where
  "demo_found core = (demo_init core)\<lparr>ie_shm := (\<lambda>_. demo_calls\<lparr>excl_open := - 1, excl_errno := EEXIST, plain_open := 3\<rparr>),
     ie_attr := (\<lambda>_. demo_attr), ie_sem_wait := []\<rparr>"

lemma demo_found_shm:
  "shm_ok (ie_shm (demo_found core) path)" "\<not> 0 \<le> excl_open (ie_shm (demo_found core) path)" "ie_attr (demo_found core) path = demo_attr"
  by (simp_all add: demo_found_def demo_calls_def shm_ok_def shm_opened_def MAP_FAILED_def)

subsection \<open>Properties of the initialisation\<close>

text \<open>C6: A process with a memory limit and no core limit starts with no charged block and no
  known device, its two lists are well formed and its mutex is free, and its budget is its own
  limit, all of it free, when the shared object is new or its owner is gone, and the owner's
  budget otherwise. No thread is started.\<close>

theorem init_establishes_ledger:
  assumes "get_mem_limit (ie_mem_limit ie) (Some NVIDIA_CTL_MINOR) = Inr (0, Some m, Some tmem)"
    and "shm_ok (ie_shm ie (fb_shm_path m))" and "hh \<noteq> rh"
    and core: "fst (get_core_limit (ie_core_limit ie) None) \<noteq> 0"
  shows "\<exists>st. init_device_prop ie (False, gpu_device hh rh) = Inr (Some (True, False, st)) \<and> mem_limited st \<and>
    ledger_rel st (empty_ledger (first_budget ie m tmem))"
  using init_once_mem [OF assms(1,2,3)] core
  by (fastforce simp: init_device_prop_def init_core_def split: prod.splits)

theorem init_establishes_ledger_witness:
  "\<exists>st. init_device_prop (demo_init None) (False, gpu_device 16 32) = Inr (Some (True, False, st)) \<and> mem_limited st \<and>
    ledger_rel st (empty_ledger (first_budget (demo_init None) 0 2147483648))"
  by (rule init_establishes_ledger [OF demo_mem_limit demo_shm])
    (simp_all add: demo_init_def get_core_limit_def get_limit_def)

text \<open>C35: With a memory limit and a core limit, whatever is in the token object of the container (one this
  process creates, zero-filled, or one it finds), initialisation starts the thread that posts tokens, with
  exactly as many tokens as the limit in the object. An object that is already initialised is used
  at once, without any wait (its \<open>ready\<close> semaphore is reset to 0); otherwise the process first waits for the
  monitor, again after every signal, and the limit is the one the monitor published. Assumed are
  that the objects can be mapped, that the control group is found, and that the limit in the object
  is not negative. The same process with a missing or malformed memory limit starts nothing: the core limit alone
  has no effect.\<close>

theorem init_starts_tokens:
  assumes "get_mem_limit (ie_mem_limit ie) (Some NVIDIA_CTL_MINOR) = Inr (0, Some m, Some tmem)"
    and "shm_ok (ie_shm ie (fb_shm_path m))" and "hh \<noteq> rh"
    and core: "fst (get_core_limit (ie_core_limit ie) None) = 0"
    and cg: "get_cgroup_id (ie_cgroup ie) (replicate 4096 NUL) 4096 = Inr (0, buf)"
    and path: "path = token_shm_path m (cstr buf)" and tok: "shm_ok (ie_shm ie path)"
    and found: "found = (if 0 \<le> excl_open (ie_shm ie path) then zero_attr else ie_attr ie path)"
    and wait: "inited found \<or> ie_sem_wait ie = replicate n (- 1, EINTR) @ [(0, 0)]"
    and ta: "ta = (if inited found then found\<lparr>ready := 0\<rparr> else ie_attr_ready ie path)"
    and limit: "0 \<le> core_limit (params ta)"
  shows "(\<exists>st. init_device_prop ie (False, gpu_device hh rh) = Inr (Some (True, True, st)) \<and> mem_limited st \<and>
      core_limited st \<and> int (tokens st) = core_limit (params ta) \<and> attr st = Some ta \<and>
      ledger_rel st (empty_ledger (first_budget ie m tmem))) \<and>
    (\<forall>v. v = None \<or> (\<exists>t. v = Some t \<and> fst (scan_limit t) \<noteq> 2) \<longrightarrow>
      init_device_prop (ie\<lparr>ie_mem_limit := v\<rparr>) (False, gpu_device hh rh) = Inr (Some (True, False, gpu_device hh rh)))"
proof
  let ?st' = "\<lambda>st. st\<lparr>core_limited := True, tokens := nat (core_limit (params ta)), attr := Some ta\<rparr>"
  obtain st where st: "init_device_prop_once ie (gpu_device hh rh) = init_core ie st"
    "ledger_rel st (empty_ledger (first_budget ie m tmem))" "minor st = m" "mem_limited st"
    using init_once_mem [OF assms(1,2,3)] by blast
  have "init_tokens ie (st\<lparr>core_limited := True\<rparr>) = Inr (Some (True, ?st' st))"
    using init_tokens_effect [of ie buf path "st\<lparr>core_limited := True\<rparr>" found n ta] cg path tok found wait ta limit st(3) by simp
  then have "init_core ie st = Inr (Some (True, ?st' st))"
    using core by (auto simp: init_core_def split: prod.splits)
  moreover have "ledger_rel (?st' st) L \<longleftrightarrow> ledger_rel st L" for L
    by (simp add: ledger_rel_def wf_state_def)
  ultimately show "\<exists>st. init_device_prop ie (False, gpu_device hh rh) = Inr (Some (True, True, st)) \<and> mem_limited st \<and>
      core_limited st \<and> int (tokens st) = core_limit (params ta) \<and> attr st = Some ta \<and>
      ledger_rel st (empty_ledger (first_budget ie m tmem))"
    using st(1,2,4) limit by (intro exI [of _ "?st' st"]) (simp add: init_device_prop_def)
next
  show "\<forall>v. v = None \<or> (\<exists>t. v = Some t \<and> fst (scan_limit t) \<noteq> 2) \<longrightarrow>
      init_device_prop (ie\<lparr>ie_mem_limit := v\<rparr>) (False, gpu_device hh rh) = Inr (Some (True, False, gpu_device hh rh))"
    using limit_malformed by (simp add: init_device_prop_def init_device_prop_once_def)
qed

theorem init_starts_tokens_witness:
  "(\<exists>st. init_device_prop (demo_init (Some (dec_of 0 @ CHR ''='' # dec_of 30))) (False, gpu_device 16 32) =
      Inr (Some (True, True, st)) \<and> core_limited st \<and> tokens st = 30 \<and> attr st = Some demo_attr) \<and>
   (\<exists>st. init_device_prop (demo_found (Some (dec_of 0 @ CHR ''='' # dec_of 30))) (False, gpu_device 16 32) =
      Inr (Some (True, True, st)) \<and> core_limited st \<and> tokens st = 30 \<and> attr st = Some (demo_attr\<lparr>ready := 0\<rparr>))"
proof -
  let ?ie = "demo_init (Some (dec_of 0 @ CHR ''='' # dec_of 30))" and ?ie' = "demo_found (Some (dec_of 0 @ CHR ''='' # dec_of 30))"
  obtain buf where buf: "get_cgroup_id (ie_cgroup ?ie) (replicate 4096 NUL) 4096 = Inr (0, buf)"
    using get_cgroup_id_line [of "[]" "''4:devices:/pod''" "''5680''" "[]" 4096 "replicate 4096 NUL" "[]"]
    by (auto simp: demo_init_def)
  have core: "fst (get_core_limit (ie_core_limit ?ie) None) = 0"
    using get_limit_printed(2) [of 0 "dec_of 30"] dec_of_no_space [of 30]
    by (simp add: demo_init_def get_core_limit_def)
  have ie: "0 \<le> excl_open (ie_shm ?ie p)" "ie_sem_wait ?ie = replicate 2 (- 1, EINTR) @ [(0, 0)]" "ie_attr_ready ?ie p = demo_attr" for p
    by (simp_all add: demo_init_def demo_calls_def)
  have a: "core_limit (params demo_attr) = 30" "inited demo_attr" "\<not> inited zero_attr" by (simp_all add: demo_attr_def zero_attr_def)
  have "get_mem_limit (ie_mem_limit ?ie') (Some NVIDIA_CTL_MINOR) = Inr (0, Some 0, Some 2147483648)"
    "fst (get_core_limit (ie_core_limit ?ie') None) = 0" "get_cgroup_id (ie_cgroup ?ie') (replicate 4096 NUL) 4096 = Inr (0, buf)"
    using demo_mem_limit core buf by (simp_all add: demo_found_def)
  from init_starts_tokens [OF this(1) demo_found_shm(1) _ this(2,3) refl demo_found_shm(1) refl _ refl, where n = 0 and hh = 16 and rh = 32]
  have "\<exists>st. init_device_prop ?ie' (False, gpu_device 16 32) =
      Inr (Some (True, True, st)) \<and> core_limited st \<and> tokens st = 30 \<and> attr st = Some (demo_attr\<lparr>ready := 0\<rparr>)"
    using demo_found_shm(2,3) a by fastforce
  with init_starts_tokens [OF demo_mem_limit demo_shm _ core buf refl demo_shm refl _ refl, where n = 2 and hh = 16 and rh = 32]
  show ?thesis using ie a by fastforce
qed

end
