(* ===== verification/Entry.thy ===== *)
theory Entry
  imports Init
begin

text \<open>
  The constructor of the library (\<^verbatim>\<open>src/entry.c\<close>): it walks over the dynamic sections of the
  loaded modules, looks up the real functions by name, and initialises the limits. The
  memory of the process, which the walk reads, is given by three functions: the second word
  of a hash table, an entry of a symbol table and the C string at an address; \<open>None\<close> is an
  address that is not mapped.
\<close>

subsection \<open>Modules\<close>

record elf_sym =
  st_name :: u64
  st_value :: u64

record image =
  hash_count :: "addr \<Rightarrow> u32 option"
  sym_at :: "addr \<Rightarrow> nat \<Rightarrow> elf_sym option"
  str_at :: "addr \<Rightarrow> string option"

datatype dyn = DT_HASH addr | DT_STRTAB addr | DT_SYMTAB addr | DT_OTHER

text \<open>A program header is \<open>None\<close>, or the dynamic section it describes up to its end mark.\<close>

record dl_phdr_info =
  dlpi_addr :: addr
  dlpi_name :: string
  dlpi_phdr :: "dyn list option list"

subsection \<open>Reading the symbols\<close>

definition set_if_null :: "addr \<Rightarrow> addr \<Rightarrow> addr" where
  "set_if_null old v = (if old = NULL then v else old)"

definition bind_symbol :: "string \<Rightarrow> addr \<Rightarrow> dlfcn_t \<Rightarrow> dlfcn_t" where
  "bind_symbol name a d =
     (if name = ''dlsym'' then d\<lparr>dl_dlsym := set_if_null (dl_dlsym d) a\<rparr>
      else if name = ''dlopen'' then d\<lparr>dl_dlopen := set_if_null (dl_dlopen d) a\<rparr>
      else if name = ''dlclose'' then d\<lparr>dl_dlclose := set_if_null (dl_dlclose d) a\<rparr>
      else if name = ''dladdr'' then d\<lparr>dl_dladdr := set_if_null (dl_dladdr d) a\<rparr>
      else if name = ''ioctl'' then d\<lparr>dl_ioctl := set_if_null (dl_ioctl d) a\<rparr>
      else d)"

function sym_loop :: "image \<Rightarrow> addr \<Rightarrow> addr \<Rightarrow> addr \<Rightarrow> nat \<Rightarrow> nat \<Rightarrow> dlfcn_t \<Rightarrow> dlfcn_t res" where
  "sym_loop im base strtab symtab sym_cnt sym_index d =
     (if sym_index < sym_cnt then
        bindR (deref (sym_at im symtab sym_index)) (\<lambda>s.
          if base + st_value s = base then sym_loop im base strtab symtab sym_cnt (Suc sym_index) d
          else bindR (deref (str_at im (strtab + st_name s))) (\<lambda>name.
            sym_loop im base strtab symtab sym_cnt (Suc sym_index) (bind_symbol name (base + st_value s) d)))
      else Inr d)"
  by pat_completeness auto
termination
  by (relation "measure (\<lambda>(im, base, strtab, symtab, sym_cnt, i, d). sym_cnt - i)") auto

declare sym_loop.simps [simp del]

text \<open>The variables \<open>sym_cnt\<close> and \<open>strtab\<close> keep their values from one entry to the next.\<close>

fun dyn_loop :: "image \<Rightarrow> addr \<Rightarrow> dyn list \<Rightarrow> u32 \<times> addr \<times> dlfcn_t \<Rightarrow> (u32 \<times> addr \<times> dlfcn_t) res" where
  "dyn_loop im base [] s = Inr s"
| "dyn_loop im base (DT_HASH h # ds) (cnt, strtab, d) =
     bindR (deref (hash_count im h)) (\<lambda>cnt. dyn_loop im base ds (cnt, strtab, d))"
| "dyn_loop im base (DT_STRTAB p # ds) (cnt, strtab, d) = dyn_loop im base ds (cnt, p, d)"
| "dyn_loop im base (DT_SYMTAB p # ds) (cnt, strtab, d) =
     bindR (sym_loop im base strtab p (unat cnt) 0 d) (\<lambda>d. dyn_loop im base ds (cnt, strtab, d))"
| "dyn_loop im base (DT_OTHER # ds) s = dyn_loop im base ds s"

fun phdr_loop :: "image \<Rightarrow> addr \<Rightarrow> dyn list option list \<Rightarrow> u32 \<times> addr \<times> dlfcn_t \<Rightarrow> (u32 \<times> addr \<times> dlfcn_t) res" where
  "phdr_loop im base [] s = Inr s"
| "phdr_loop im base (None # hs) s = phdr_loop im base hs s"
| "phdr_loop im base (Some ds # hs) s = bindR (dyn_loop im base ds s) (phdr_loop im base hs)"

definition retrieve_symbols :: "image \<Rightarrow> dl_phdr_info \<Rightarrow> dlfcn_t \<Rightarrow> dlfcn_t res" where
  "retrieve_symbols im info d =
     (let libname = basename (dlpi_name info) in
      if length libname = 0 \<or> libname = ''linux-vdso.so.1'' then Inr d
      else bindR (phdr_loop im (dlpi_addr info) (dlpi_phdr info) (0, NULL, d)) (\<lambda>(cnt, strtab, d). Inr d))"

text \<open>\<open>dl_iterate_phdr\<close> calls back for each module in load order; the callback returns 0.\<close>

fun dl_iterate_phdr :: "image \<Rightarrow> dl_phdr_info list \<Rightarrow> dlfcn_t \<Rightarrow> dlfcn_t res" where
  "dl_iterate_phdr im [] d = Inr d"
| "dl_iterate_phdr im (info # infos) d = bindR (retrieve_symbols im info d) (dl_iterate_phdr im infos)"

subsection \<open>The state of the library\<close>

record lib =
  dlfcn :: dlfcn_t
  prop_once :: bool
  dev :: hook_state
  token_thread :: bool
  table :: "entry_t list"

text \<open>
  The constructor. A wait for the monitor that does not end is a thread that is blocked for
  ever.
\<close>

definition init :: "image \<Rightarrow> dl_phdr_info list \<Rightarrow> init_env \<Rightarrow> lib \<Rightarrow> lib res" where
  "init im infos ie s =
     bindR (dl_iterate_phdr im infos (dlfcn s)) (\<lambda>d.
     bindR (init_device_prop ie (prop_once s, dev s)) (\<lambda>r.
       case r of
         None \<Rightarrow> Inl Deadlock
       | Some (fin, started, st) \<Rightarrow>
           Inr (s\<lparr>dlfcn := d, prop_once := fin, dev := st, token_thread := token_thread s \<or> started\<rparr>)))"

subsection \<open>The symbols a module defines\<close>

text \<open>The names and addresses the scan of a symbol table meets, in its order.\<close>

definition table_defs :: "image \<Rightarrow> addr \<Rightarrow> addr \<Rightarrow> addr \<Rightarrow> nat \<Rightarrow> (string \<times> addr) list" where
  "table_defs im base strtab symtab n =
     map (\<lambda>s. (the (str_at im (strtab + st_name s)), base + st_value s))
       (filter (\<lambda>s. st_value s \<noteq> 0) (map (\<lambda>i. the (sym_at im symtab i)) [0..<n]))"

definition bind_all :: "(string \<times> addr) list \<Rightarrow> dlfcn_t \<Rightarrow> dlfcn_t" where
  "bind_all defs d = foldl (\<lambda>d (name, a). bind_symbol name a d) d defs"

text \<open>The table is readable: every entry, and the name of every entry with a value.\<close>

definition readable :: "image \<Rightarrow> addr \<Rightarrow> addr \<Rightarrow> nat \<Rightarrow> bool" where
  "readable im strtab symtab n \<longleftrightarrow>
     (\<forall>i<n. \<exists>s. sym_at im symtab i = Some s \<and> (st_value s \<noteq> 0 \<longrightarrow> str_at im (strtab + st_name s) \<noteq> None))"

lemma sym_loop_bind_all:
  assumes "readable im strtab symtab n" "i \<le> n"
  shows "sym_loop im base strtab symtab n i d =
    Inr (bind_all (map (\<lambda>s. (the (str_at im (strtab + st_name s)), base + st_value s))
       (filter (\<lambda>s. st_value s \<noteq> 0) (map (\<lambda>i. the (sym_at im symtab i)) [i..<n]))) d)"
  using assms(2)
proof (induction "n - i" arbitrary: i d)
  case 0
  then show ?case by (subst sym_loop.simps) (simp add: bind_all_def)
next
  case (Suc k)
  then have i: "i < n" "Suc i \<le> n" "k = n - Suc i" by auto
  obtain s where s: "sym_at im symtab i = Some s" "st_value s \<noteq> 0 \<longrightarrow> str_at im (strtab + st_name s) \<noteq> None"
    using assms(1) i(1) by (auto simp: readable_def)
  show ?case
    using Suc(1) [OF i(3,2)] s i(1)
    by (subst sym_loop.simps) (auto simp: upt_conv_Cons bind_all_def)
qed

lemma sym_loop_defs:
  "readable im strtab symtab n \<Longrightarrow> sym_loop im base strtab symtab n 0 d = Inr (bind_all (table_defs im base strtab symtab n) d)"
  by (simp add: sym_loop_bind_all table_defs_def)

text \<open>The dynamic section of a module, and the symbols a scan of it meets.\<close>

definition section_of :: "dl_phdr_info \<Rightarrow> dyn list" where
  "section_of info = concat (map (\<lambda>h. case h of None \<Rightarrow> [] | Some ds \<Rightarrow> ds) (dlpi_phdr info))"

fun dyn_defs :: "image \<Rightarrow> addr \<Rightarrow> dyn list \<Rightarrow> u32 \<Rightarrow> addr \<Rightarrow> (string \<times> addr) list" where
  "dyn_defs im base [] cnt strtab = []"
| "dyn_defs im base (DT_HASH h # ds) cnt strtab = dyn_defs im base ds (the (hash_count im h)) strtab"
| "dyn_defs im base (DT_STRTAB p # ds) cnt strtab = dyn_defs im base ds cnt p"
| "dyn_defs im base (DT_SYMTAB p # ds) cnt strtab = table_defs im base strtab p (unat cnt) @ dyn_defs im base ds cnt strtab"
| "dyn_defs im base (DT_OTHER # ds) cnt strtab = dyn_defs im base ds cnt strtab"

fun readable_dyn :: "image \<Rightarrow> dyn list \<Rightarrow> u32 \<Rightarrow> addr \<Rightarrow> bool" where
  "readable_dyn im [] cnt strtab \<longleftrightarrow> True"
| "readable_dyn im (DT_HASH h # ds) cnt strtab \<longleftrightarrow> hash_count im h \<noteq> None \<and> readable_dyn im ds (the (hash_count im h)) strtab"
| "readable_dyn im (DT_STRTAB p # ds) cnt strtab \<longleftrightarrow> readable_dyn im ds cnt p"
| "readable_dyn im (DT_SYMTAB p # ds) cnt strtab \<longleftrightarrow> readable im strtab p (unat cnt) \<and> readable_dyn im ds cnt strtab"
| "readable_dyn im (DT_OTHER # ds) cnt strtab \<longleftrightarrow> readable_dyn im ds cnt strtab"

definition skipped :: "dl_phdr_info \<Rightarrow> bool" where
  "skipped info \<longleftrightarrow> basename (dlpi_name info) \<in> {[], ''linux-vdso.so.1''}"

definition module_defs :: "image \<Rightarrow> dl_phdr_info \<Rightarrow> (string \<times> addr) list" where
  "module_defs im info = (if skipped info then [] else dyn_defs im (dlpi_addr info) (section_of info) 0 NULL)"

definition readable_module :: "image \<Rightarrow> dl_phdr_info \<Rightarrow> bool" where
  "readable_module im info \<longleftrightarrow> skipped info \<or> readable_dyn im (section_of info) 0 NULL"

lemma dyn_loop_append: "dyn_loop im base (ds @ es) s = bindR (dyn_loop im base ds s) (dyn_loop im base es)"
  by (induction im base ds s rule: dyn_loop.induct) (auto simp: bindR_assoc)

lemma phdr_loop_section:
  "phdr_loop im base hs s = dyn_loop im base (concat (map (\<lambda>h. case h of None \<Rightarrow> [] | Some ds \<Rightarrow> ds) hs)) s"
  by (induction im base hs s rule: phdr_loop.induct) (auto simp: dyn_loop_append fun_eq_iff intro!: arg_cong2 [where f = bindR])

lemma bind_all_append: "bind_all (xs @ ys) d = bind_all ys (bind_all xs d)"
  by (simp add: bind_all_def)

lemma dyn_loop_defs:
  assumes "readable_dyn im ds cnt strtab"
  shows "\<exists>cnt' strtab'. dyn_loop im base ds (cnt, strtab, d) = Inr (cnt', strtab', bind_all (dyn_defs im base ds cnt strtab) d)"
  using assms
  by (induction im ds cnt strtab arbitrary: d rule: readable_dyn.induct)
    (auto simp: bind_all_append sym_loop_defs, simp add: bind_all_def)

lemma retrieve_symbols_defs:
  assumes "readable_module im info"
  shows "retrieve_symbols im info d = Inr (bind_all (module_defs im info) d)"
proof (cases "skipped info")
  case True
  then show ?thesis by (auto simp: retrieve_symbols_def skipped_def module_defs_def bind_all_def)
next
  case False
  then obtain cnt' strtab' where "dyn_loop im (dlpi_addr info) (section_of info) (0, NULL, d) =
      Inr (cnt', strtab', bind_all (module_defs im info) d)"
    using dyn_loop_defs [of im "section_of info" 0 NULL "dlpi_addr info" d] assms
    by (auto simp: readable_module_def module_defs_def)
  with False show ?thesis
    by (simp add: retrieve_symbols_def skipped_def phdr_loop_section flip: section_of_def)
qed

lemma dl_iterate_phdr_defs:
  assumes "\<forall>info \<in> set infos. readable_module im info"
  shows "dl_iterate_phdr im infos d = Inr (bind_all (concat (map (module_defs im) infos)) d)"
  using assms
  by (induction infos arbitrary: d) (auto simp: retrieve_symbols_defs bind_all_append, simp add: bind_all_def)

text \<open>The first usable definition of a name.\<close>

definition first_def :: "string \<Rightarrow> (string \<times> addr) list \<Rightarrow> addr" where
  "first_def name defs = (case filter (\<lambda>(n, a). n = name \<and> a \<noteq> NULL) defs of [] \<Rightarrow> NULL | (n, a) # _ \<Rightarrow> a)"

lemma bind_all_Cons: "bind_all ((n, a) # defs) d = bind_all defs (bind_symbol n a d)"
  by (simp add: bind_all_def)

lemma first_def_Cons:
  "first_def name ((n, a) # defs) = (if n = name \<and> a \<noteq> NULL then a else first_def name defs)"
  by (simp add: first_def_def)

lemma bind_symbol_slots:
  "dl_dlsym (bind_symbol n a d) = (if n = ''dlsym'' then set_if_null (dl_dlsym d) a else dl_dlsym d)"
  "dl_dlopen (bind_symbol n a d) = (if n = ''dlopen'' then set_if_null (dl_dlopen d) a else dl_dlopen d)"
  "dl_dlclose (bind_symbol n a d) = (if n = ''dlclose'' then set_if_null (dl_dlclose d) a else dl_dlclose d)"
  "dl_dladdr (bind_symbol n a d) = (if n = ''dladdr'' then set_if_null (dl_dladdr d) a else dl_dladdr d)"
  "dl_ioctl (bind_symbol n a d) = (if n = ''ioctl'' then set_if_null (dl_ioctl d) a else dl_ioctl d)"
  by (simp_all add: bind_symbol_def)

lemma bind_all_Nil: "bind_all [] d = d" "first_def name [] = NULL" "set_if_null x NULL = x"
  by (simp_all add: bind_all_def first_def_def set_if_null_def)

lemma set_if_null_trans: "set_if_null (set_if_null x a) y = set_if_null x (if a \<noteq> NULL then a else y)"
  by (simp add: set_if_null_def)

lemma bind_all_dlsym: "dl_dlsym (bind_all defs d) = set_if_null (dl_dlsym d) (first_def ''dlsym'' defs)"
  by (induction defs arbitrary: d)
    (auto simp: bind_all_Cons first_def_Cons bind_symbol_slots bind_all_Nil set_if_null_trans)

lemma bind_all_dlopen: "dl_dlopen (bind_all defs d) = set_if_null (dl_dlopen d) (first_def ''dlopen'' defs)"
  by (induction defs arbitrary: d)
    (auto simp: bind_all_Cons first_def_Cons bind_symbol_slots bind_all_Nil set_if_null_trans)

lemma bind_all_dlclose: "dl_dlclose (bind_all defs d) = set_if_null (dl_dlclose d) (first_def ''dlclose'' defs)"
  by (induction defs arbitrary: d)
    (auto simp: bind_all_Cons first_def_Cons bind_symbol_slots bind_all_Nil set_if_null_trans)

lemma bind_all_dladdr: "dl_dladdr (bind_all defs d) = set_if_null (dl_dladdr d) (first_def ''dladdr'' defs)"
  by (induction defs arbitrary: d)
    (auto simp: bind_all_Cons first_def_Cons bind_symbol_slots bind_all_Nil set_if_null_trans)

lemma bind_all_ioctl: "dl_ioctl (bind_all defs d) = set_if_null (dl_ioctl d) (first_def ''ioctl'' defs)"
  by (induction defs arbitrary: d)
    (auto simp: bind_all_Cons first_def_Cons bind_symbol_slots bind_all_Nil set_if_null_trans)

lemmas bind_all_slots = bind_all_dlsym bind_all_dlopen bind_all_dlclose bind_all_dladdr bind_all_ioctl

lemma dyn_defs_no_hash:
  assumes "\<forall>h. DT_HASH h \<notin> set ds"
  shows "dyn_defs im base ds 0 strtab = []"
  using assms
proof (induction ds arbitrary: strtab)
  case (Cons x ds)
  then show ?case by (cases x) (auto simp: table_defs_def)
qed simp

lemma module_defs_no_hash:
  assumes "\<forall>info \<in> set infos. \<forall>h. DT_HASH h \<notin> set (section_of info)"
  shows "concat (map (module_defs im) infos) = []"
  using assms dyn_defs_no_hash by (auto simp: module_defs_def)

definition no_dlfcn :: dlfcn_t where
  "no_dlfcn = \<lparr>dl_once = False, dl_dlopen = NULL, dl_dlsym = NULL, dl_dladdr = NULL, dl_dlclose = NULL, dl_ioctl = NULL\<rparr>"

subsection \<open>Properties of the symbol scan\<close>

text \<open>A memory with one symbol table of three symbols, and a module with it.\<close>

definition demo_image :: image where
  "demo_image =
     \<lparr>hash_count = (\<lambda>a. if a = 1 then Some 3 else None),
      sym_at = (\<lambda>a i. if a = 3 then Some (if i = 0 then \<lparr>st_name = 0, st_value = 0\<rparr>
        else if i = 1 then \<lparr>st_name = 1, st_value = 64\<rparr> else \<lparr>st_name = 2, st_value = 128\<rparr>) else None),
      str_at = (\<lambda>a. if a = 101 then Some ''ioctl'' else if a = 102 then Some ''dlsym'' else None)\<rparr>"

definition demo_module :: "dyn list \<Rightarrow> dl_phdr_info" where
  "demo_module ds = \<lparr>dlpi_addr = 4096, dlpi_name = ''/lib/libc.so.6'', dlpi_phdr = [None, Some ds]\<rparr>"

lemma demo_module_defs:
  "module_defs demo_image (demo_module [DT_HASH 1, DT_OTHER, DT_STRTAB 100, DT_SYMTAB 3]) = [(''ioctl'', 4160), (''dlsym'', 4224)]"
  "readable_module demo_image (demo_module [DT_HASH 1, DT_OTHER, DT_STRTAB 100, DT_SYMTAB 3])"
  by (simp_all add: module_defs_def readable_module_def demo_module_def demo_image_def skipped_def basename_def section_of_def
      table_defs_def readable_def upt_conv_Cons)

text \<open>C10: The scan finds the real functions: over modules whose tables can be read it ends
  without a fault, and each of the five functions is the first usable definition of its name in
  load order.\<close>

theorem real_functions_found:
  assumes "\<forall>info \<in> set infos. readable_module im info"
  shows "\<exists>d. dl_iterate_phdr im infos no_dlfcn = Inr d \<and>
    (let defs = concat (map (module_defs im) infos) in
     dl_dlsym d = first_def ''dlsym'' defs \<and> dl_dlopen d = first_def ''dlopen'' defs \<and>
     dl_dlclose d = first_def ''dlclose'' defs \<and> dl_dladdr d = first_def ''dladdr'' defs \<and>
     dl_ioctl d = first_def ''ioctl'' defs)"
  using dl_iterate_phdr_defs [OF assms]
  by (simp add: bind_all_slots set_if_null_def no_dlfcn_def)

theorem real_functions_found_witness:
  "\<exists>d. dl_iterate_phdr demo_image [demo_module [DT_HASH 1, DT_OTHER, DT_STRTAB 100, DT_SYMTAB 3]] no_dlfcn = Inr d \<and>
    dl_ioctl d = 4160 \<and> dl_dlsym d = 4224 \<and> dl_dlopen d = NULL"
  using real_functions_found [of "[demo_module [DT_HASH 1, DT_OTHER, DT_STRTAB 100, DT_SYMTAB 3]]" demo_image]
  by (auto simp: demo_module_defs Let_def first_def_def)

text \<open>A module that has no classic hash table (\<open>DT_HASH\<close>) contributes no symbol, whatever its
  symbol table holds; where no module has one, none of the real functions is found.\<close>

lemma gnu_hash_modules_invisible:
  assumes "\<forall>info \<in> set infos. \<forall>h. DT_HASH h \<notin> set (section_of info)" "\<forall>info \<in> set infos. readable_module im info"
  shows "dl_iterate_phdr im infos no_dlfcn = Inr no_dlfcn"
  using dl_iterate_phdr_defs [OF assms(2), of no_dlfcn] module_defs_no_hash [OF assms(1), of im]
  by (simp only: bind_all_Nil(1))

lemma gnu_hash_modules_invisible_witness:
  "dl_iterate_phdr demo_image [demo_module [DT_OTHER, DT_STRTAB 100, DT_SYMTAB 3]] no_dlfcn = Inr no_dlfcn"
  by (rule gnu_hash_modules_invisible)
    (simp_all add: demo_module_def section_of_def readable_module_def readable_def)

end
