(* ===== verification/Dlfcn.thy ===== *)
theory Dlfcn
  imports Entry
begin

text \<open>
  The two functions the library exports (\<^verbatim>\<open>src/dlfcn.c\<close>): \<open>dlsym\<close>, which hands out the hooks,
  and \<open>ioctl\<close>, which wraps every call of the NVIDIA driver with the checks before and the
  accounting after it. The dynamic linker and the driver are parameters: \<open>dl_api\<close> answers
  the real \<open>dlopen\<close>, \<open>dlsym\<close> and \<open>dladdr\<close>, and \<open>drv\<close> the real \<open>ioctl\<close>.
\<close>

subsection \<open>The dynamic linker\<close>

record link_map =
  l_addr :: addr
  l_name :: string

record dl_api =
  api_dladdr :: "string option"
  api_dlopen :: "string \<Rightarrow> addr"
  api_chain :: "addr \<Rightarrow> link_map list"
  api_dlsym :: "addr \<Rightarrow> string \<Rightarrow> addr"

definition RTLD_NEXT :: addr where
  "RTLD_NEXT = - 1"

definition LIBRARY_NAME :: string where
  "LIBRARY_NAME = ''libcuda_hook.so''"

definition BUG_ON :: "bool \<Rightarrow> 'a res \<Rightarrow> 'a res" where
  "BUG_ON c r = (if c then Inl (ProcessExit (- 1)) else r)"

text \<open>The loop over the link map; \<open>index\<close> counts whether the caller's own module was passed.\<close>

fun next_loop :: "dl_api \<Rightarrow> addr \<Rightarrow> string \<Rightarrow> nat \<Rightarrow> addr \<Rightarrow> link_map list \<Rightarrow> addr res" where
  "next_loop api caller symbol index handle [] = Inr handle"
| "next_loop api caller symbol index handle (lm # rest) =
     (if caller < l_addr lm then next_loop api caller symbol index handle rest
      else if index < 1 then next_loop api caller symbol (Suc index) handle rest
      else let temp_map = api_dlopen api (l_name lm) in
        if temp_map = NULL then Inl (ProcessExit (- 1))
        else let handle = api_dlsym api temp_map symbol in
          if handle \<noteq> NULL then Inr handle else next_loop api caller symbol index handle rest)"

definition get_next_symbol :: "dl_api \<Rightarrow> dlfcn_t \<Rightarrow> addr \<Rightarrow> string \<Rightarrow> addr res" where
  "get_next_symbol api d caller symbol =
     BUG_ON (dl_dlopen d = NULL) (BUG_ON (dl_dlsym d = NULL) (BUG_ON (dl_dlclose d = NULL) (BUG_ON (dl_dladdr d = NULL)
       (let self_path = (case api_dladdr api of Some name \<Rightarrow> name | None \<Rightarrow> LIBRARY_NAME);
            self = api_dlopen api self_path
        in if self = NULL then Inl (ProcessExit (- 1))
           else next_loop api caller symbol 0 NULL (api_chain api self)))))"

subsection \<open>The exported functions\<close>

text \<open>\<open>pthread_once\<close> with the constructor of the library, \<open>ini\<close>.\<close>

definition run_once :: "(lib \<Rightarrow> lib res) \<Rightarrow> lib \<Rightarrow> lib res" where
  "run_once ini s =
     (if dl_once (dlfcn s) then Inr s
      else bindR (ini s) (\<lambda>s. Inr (s\<lparr>dlfcn := (dlfcn s)\<lparr>dl_once := True\<rparr>\<rparr>)))"

definition dlsym :: "dl_api \<Rightarrow> (lib \<Rightarrow> lib res) \<Rightarrow> lib \<Rightarrow> addr \<Rightarrow> addr \<Rightarrow> string \<Rightarrow> (addr \<times> lib) res" where
  "dlsym api ini s caller handle symbol =
     bindR (if dl_dlsym (dlfcn s) = NULL then run_once ini s else Inr s) (\<lambda>s.
       BUG_ON (dl_dlsym (dlfcn s) = NULL)
         (if handle = RTLD_NEXT then bindR (get_next_symbol api (dlfcn s) caller symbol) (\<lambda>a. Inr (a, s))
          else let entrypoint = api_dlsym api handle symbol in
            bindR (find_entry (table s) (length (table s)) symbol) (\<lambda>e.
              case e of
                Some i \<Rightarrow>
                  if entrypoint \<noteq> NULL then
                    let s = s\<lparr>table := (table s)[i := (table s ! i)\<lparr>real_pfn := entrypoint\<rparr>]\<rparr> in
                    Inr (if hook_pfn (table s ! i) \<noteq> NULL then hook_pfn (table s ! i) else entrypoint, s)
                  else Inr (entrypoint, s)
              | None \<Rightarrow> Inr (entrypoint, s))))"

text \<open>
  The hooked \<open>ioctl\<close>: \<open>fstat\<close> is the outcome of \<open>fstat\<close> on the file descriptor, \<open>drv\<close> the real
  function on it, \<open>m\<close> the block \<open>malloc\<close> hands out if the handlers ask for one, and \<open>env\<close> what a
  memory query finds in the shared objects.
\<close>

definition ioctl ::
  "nv_abi \<Rightarrow> (string \<Rightarrow> fb_env) \<Rightarrow> (lib \<Rightarrow> lib res) \<Rightarrow> (u64 \<Rightarrow> ioctl_arg \<Rightarrow> int \<times> ioctl_arg) \<Rightarrow> addr \<Rightarrow> int \<times> stat \<Rightarrow>
     lib \<Rightarrow> u64 \<Rightarrow> ioctl_arg \<Rightarrow> (int \<times> ioctl_arg \<times> lib) res" where
  "ioctl K env ini drv m fstat s cmd args =
     bindR (if dl_ioctl (dlfcn s) = NULL then run_once ini s else Inr s) (\<lambda>s.
     BUG_ON (dl_ioctl (dlfcn s) = NULL)
      (case (if mem_limited (dev s) then get_device_number fstat (0, 0) else (0, 0, 0)) of (ret, maj, mnr) \<Rightarrow>
       let redirect = (\<lambda>s args.
         case drv cmd args of (ret, args) \<Rightarrow>
           if mem_limited (dev s) \<and> ret = 0 then
             bindR (post_ioctl K env (dev s) m maj mnr (ucast cmd) args) (\<lambda>(ret, args, st). Inr (ret, args, s\<lparr>dev := st\<rparr>))
           else Inr (ret, args, s))
       in if mem_limited (dev s) \<and> ret = 0 \<and> maj = NVIDIA_DEVICE_MAJOR then
            bindR (pre_ioctl K (dev s) maj mnr (ucast cmd) args) (\<lambda>(ret, success, args, st).
              if ret \<noteq> 0 \<or> success then Inr (ret, args, s\<lparr>dev := st\<rparr>) else redirect (s\<lparr>dev := st\<rparr>) args)
          else redirect s args))"

subsection \<open>What a request asks for\<close>

text \<open>The bytes the check before the call compares with the free ones: the size, rounded up.\<close>

definition requested :: "nv_abi \<Rightarrow> ioctl_arg \<Rightarrow> u64" where
  "requested K arg =
     (case arg of
        Arg32 p \<Rightarrow> if os32_function p = NVOS32_FUNCTION_ALLOC_SIZE K \<and> os32_alignment p \<noteq> 0
          then align_up (os32_size p) (os32_alignment p) else 0
      | Arg21 p \<Rightarrow> (case os21_pAllocParms p of
          MemoryParms q \<Rightarrow> if map_alignment q \<noteq> 0 then align_up (map_size q) (map_alignment q) else 0
        | _ \<Rightarrow> 0)
      | _ \<Rightarrow> 0)"

text \<open>The answer of the library to a request that does not fit.\<close>

definition no_memory :: "nv_abi \<Rightarrow> ledger \<Rightarrow> ioctl_arg \<Rightarrow> ioctl_arg" where
  "no_memory K L arg =
     (case arg of
        Arg32 p \<Rightarrow> Arg32 (p\<lparr>os32_status := NV_ERR_NO_MEMORY K, os32_total := l_total L, os32_free := l_free L\<rparr>)
      | Arg21 p \<Rightarrow> Arg21 (p\<lparr>os21_status := NV_ERR_NO_MEMORY K\<rparr>)
      | a \<Rightarrow> a)"

lemma pre_ioctl_check:
  assumes rel: "ledger_rel st L" and K: "abi_ok K" and laid: "well_laid K cmd arg"
  shows "pre_ioctl K st maj mnr cmd arg =
    Inr (0, l_free L < requested K arg, if l_free L < requested K arg then no_memory K L arg else arg, st)"
proof -
  obtain fb where st: "mu st = False" "fb_info st = Some fb" "total_mem fb = l_total L" "free_mem fb = l_free L"
    "mutex_lock st = Inr (st\<lparr>mu := True\<rparr>)" using ledger_relE [OF rel] by metis
  have un: "mutex_unlock (st\<lparr>mu := True\<rparr>) = st" using st(1) by (simp add: mutex_unlock_def)
  show ?thesis
  proof (cases arg)
    case (Arg32 p)
    then show ?thesis
      using laid K st un
      by (auto simp: pre_ioctl_def well_laid_def pre_vid_heap_alloc_def requested_def no_memory_def Let_def abi_ok_def)
  next
    case (Arg21 p)
    then show ?thesis
      using laid K st un
      by (auto simp: pre_ioctl_def well_laid_def pre_rm_alloc_def requested_def no_memory_def Let_def abi_ok_def
          split: alloc_parms.splits)
  next
    case (Arg54 p)
    then show ?thesis using laid K by (auto simp: pre_ioctl_def well_laid_def requested_def abi_ok_def)
  next
    case (Arg00 p)
    then show ?thesis using laid K by (auto simp: pre_ioctl_def well_laid_def requested_def abi_ok_def)
  next
    case ArgOther
    then show ?thesis using laid by (auto simp: pre_ioctl_def well_laid_def requested_def)
  qed
qed

subsection \<open>Finding the next definition\<close>

text \<open>The modules the search looks at: those not above the caller, without the first of them.\<close>

definition candidates :: "addr \<Rightarrow> link_map list \<Rightarrow> link_map list" where
  "candidates caller ms = tl (filter (\<lambda>m. l_addr m \<le> caller) ms)"

definition resolve :: "dl_api \<Rightarrow> string \<Rightarrow> link_map \<Rightarrow> addr" where
  "resolve api symbol m = api_dlsym api (api_dlopen api (l_name m)) symbol"

definition first_resolved :: "dl_api \<Rightarrow> string \<Rightarrow> link_map list \<Rightarrow> addr" where
  "first_resolved api symbol ms = (case filter (\<lambda>a. a \<noteq> NULL) (map (resolve api symbol) ms) of [] \<Rightarrow> NULL | a # _ \<Rightarrow> a)"

lemma next_loop_passed:
  assumes "\<forall>m \<in> set ms. api_dlopen api (l_name m) \<noteq> NULL"
  shows "next_loop api caller symbol 1 NULL ms = Inr (first_resolved api symbol (filter (\<lambda>m. l_addr m \<le> caller) ms))"
  using assms
  by (induction ms) (auto simp: first_resolved_def resolve_def Let_def not_less)

lemma next_loop_first:
  assumes "\<forall>m \<in> set ms. api_dlopen api (l_name m) \<noteq> NULL"
  shows "next_loop api caller symbol 0 NULL ms = Inr (first_resolved api symbol (candidates caller ms))"
  using assms
proof (induction ms)
  case Nil
  then show ?case by (simp add: candidates_def first_resolved_def)
next
  case (Cons m ms)
  then show ?case
    using next_loop_passed [of ms api caller symbol] by (auto simp: candidates_def not_less)
qed

subsection \<open>One hooked call\<close>

text \<open>
  The library is initialised and limited, its state stands for the ledger, and the call is on
  an NVIDIA device node.
\<close>

definition limited :: "lib \<Rightarrow> ledger \<Rightarrow> bool" where
  "limited s L \<longleftrightarrow> dl_ioctl (dlfcn s) \<noteq> NULL \<and> mem_limited (dev s) \<and> ledger_rel (dev s) L"

definition on_nvidia :: "int \<times> stat \<Rightarrow> u32 \<Rightarrow> bool" where
  "on_nvidia fstat mnr \<longleftrightarrow> get_device_number fstat (0, 0) = (0, NVIDIA_DEVICE_MAJOR, mnr)"

text \<open>The environment of the call: \<open>malloc\<close> and the mapping of shared objects succeed.\<close>

definition env_ok :: "(string \<Rightarrow> fb_env) \<Rightarrow> addr \<Rightarrow> lib \<Rightarrow> bool" where
  "env_ok env m s \<longleftrightarrow> fresh_block (dev s) m \<and> (\<forall>path. shm_ok (fbe_calls (env path)))"

text \<open>
  What the driver promises: a successful call leaves a block of the layout of its request
  number. The size in that block is its own choice: the field is an input and an output of the
  request. \<open>granted\<close> is the size the library charges for the answer, 0 where it charges nothing.
\<close>

definition driver_layout :: "nv_abi \<Rightarrow> (u64 \<Rightarrow> ioctl_arg \<Rightarrow> int \<times> ioctl_arg) \<Rightarrow> u64 \<Rightarrow> ioctl_arg \<Rightarrow> bool" where
  "driver_layout K drv cmd arg \<longleftrightarrow> (case drv cmd arg of (ret, arg') \<Rightarrow> ret = 0 \<longrightarrow> well_laid K (ucast cmd) arg')"

definition granted :: "nv_abi \<Rightarrow> u32 \<Rightarrow> (u64 \<Rightarrow> ioctl_arg \<Rightarrow> int \<times> ioctl_arg) \<Rightarrow> u64 \<Rightarrow> ioctl_arg \<Rightarrow> u64" where
  "granted K mnr drv cmd arg =
     (case drv cmd arg of (ret, arg') \<Rightarrow> if ret = 0 then charged_size K NVIDIA_DEVICE_MAJOR mnr arg' else 0)"

lemma mem_limited_post:
  assumes post: "post_ioctl K env st m maj mnr cmd arg = Inr (r, arg', st')"
  shows "mem_limited st' = mem_limited st"
  using post
  by (auto simp: post_ioctl_def post_rm_vid_heap_control_def post_vid_heap_alloc_def post_rm_control_def
      post_rm_control_fb_get_info_def post_rm_control_fb_get_info_v2_def post_rm_free_def free_heap_page_def free_device_page_def
      post_rm_alloc_def post_device_rm_alloc_def post_ctrl_rm_alloc_def post_memory_rm_alloc_def add_rm_entry_def
      add_mem_entry_def mutex_lock_def mutex_unlock_def bindR_eq_Inr Let_def
      split: if_splits ioctl_arg.splits ctrl_params.splits alloc_parms.splits prod.splits)

lemma ioctl_limited:
  assumes s: "limited s L" and dv: "on_nvidia fstat mnr" and K: "abi_ok K" and laid: "well_laid K (ucast cmd) arg"
  shows "ioctl K env ini drv m fstat s cmd arg =
    (if l_free L < requested K arg then Inr (0, no_memory K L arg, s)
     else case drv cmd arg of (ret, arg) \<Rightarrow>
       if ret = 0 then bindR (post_ioctl K env (dev s) m NVIDIA_DEVICE_MAJOR mnr (ucast cmd) arg)
         (\<lambda>(ret, arg, st). Inr (ret, arg, s\<lparr>dev := st\<rparr>))
       else Inr (ret, arg, s))"
proof -
  have rel: "ledger_rel (dev s) L" using s by (simp add: limited_def)
  show ?thesis
    using s dv pre_ioctl_check [OF rel K laid, of NVIDIA_DEVICE_MAJOR mnr]
    by (simp add: ioctl_def limited_def on_nvidia_def BUG_ON_def Let_def split: prod.split)
qed

text \<open>
  A call on a limited device: it always returns, and what it does to the ledger is nothing
  when the request does not fit or the driver refuses, and the effect of the answer otherwise.
\<close>

definition ledger_ioctl :: "nv_abi \<Rightarrow> u32 \<Rightarrow> (u64 \<Rightarrow> ioctl_arg \<Rightarrow> int \<times> ioctl_arg) \<Rightarrow> u64 \<Rightarrow> ioctl_arg \<Rightarrow> ledger \<Rightarrow> int \<times> ledger" where
  "ledger_ioctl K mnr drv cmd arg L =
     (if l_free L < requested K arg then (0, L)
      else case drv cmd arg of (ret, arg') \<Rightarrow>
        if ret = 0 then ledger_post K NVIDIA_DEVICE_MAJOR mnr arg' L else (ret, L))"

lemma ioctl_ledger:
  assumes s: "limited s L" and dv: "on_nvidia fstat mnr" and K: "abi_ok K" and laid: "well_laid K (ucast cmd) arg"
    and env: "env_ok env m s" and drv: "driver_layout K drv cmd arg"
  shows "\<exists>arg' s'. ioctl K env ini drv m fstat s cmd arg = Inr (fst (ledger_ioctl K mnr drv cmd arg L), arg', s') \<and>
    limited s' (snd (ledger_ioctl K mnr drv cmd arg L))"
proof (cases "l_free L < requested K arg")
  case True
  then show ?thesis using ioctl_limited [OF s dv K laid] s by (simp add: ledger_ioctl_def)
next
  case False
  obtain ret arg' where r: "drv cmd arg = (ret, arg')" by (cases "drv cmd arg")
  show ?thesis
  proof (cases "ret = 0")
    case True
    then have laid': "well_laid K (ucast cmd) arg'" using drv r by (simp add: driver_layout_def)
    have rel: "ledger_rel (dev s) L" using s by (simp add: limited_def)
    have "fresh_block (dev s) m" "\<forall>path. shm_ok (fbe_calls (env path))" using env by (auto simp: env_ok_def)
    from post_ioctl_ledger [OF rel this(1) K laid' this(2), of NVIDIA_DEVICE_MAJOR mnr] obtain a st where post:
      "post_ioctl K env (dev s) m NVIDIA_DEVICE_MAJOR mnr (ucast cmd) arg' =
         Inr (fst (ledger_post K NVIDIA_DEVICE_MAJOR mnr arg' L), a, st)"
      "ledger_rel st (snd (ledger_post K NVIDIA_DEVICE_MAJOR mnr arg' L))" by blast
    have "mem_limited st" using mem_limited_post [OF post(1)] s by (simp add: limited_def)
    with post False True r show ?thesis
      using ioctl_limited [OF s dv K laid, of env ini drv m] s by (simp add: ledger_ioctl_def limited_def)
  next
    case nz: False
    then show ?thesis
      using ioctl_limited [OF s dv K laid, of env ini drv m] s r False by (simp add: ledger_ioctl_def)
  qed
qed

lemma ledger_ioctl_within:
  assumes "within_budget others L" "granted K mnr drv cmd arg \<le> requested K arg"
  shows "within_budget others (snd (ledger_ioctl K mnr drv cmd arg L))"
proof (cases "l_free L < requested K arg")
  case False
  then have "unat (granted K mnr drv cmd arg) \<le> unat (l_free L)"
    using assms(2) by (simp add: word_less_nat_alt word_le_nat_alt)
  then show ?thesis
    using assms(1) False ledger_post_within [OF assms(1), of K NVIDIA_DEVICE_MAJOR mnr "snd (drv cmd arg)"]
    by (auto simp: ledger_ioctl_def granted_def split: prod.splits if_splits)
qed (use assms(1) in \<open>simp add: ledger_ioctl_def\<close>)

lemma ledger_ioctl_invariants:
  assumes "balanced L"
  shows "balanced (snd (ledger_ioctl K mnr drv cmd arg L))" "l_total (snd (ledger_ioctl K mnr drv cmd arg L)) = l_total L"
    "budget (snd (ledger_ioctl K mnr drv cmd arg L)) = budget L"
  using assms ledger_post_invariants [OF assms, of K NVIDIA_DEVICE_MAJOR mnr "snd (drv cmd arg)"]
  by (auto simp: ledger_ioctl_def split: prod.splits)

subsection \<open>Calls one after the other\<close>

text \<open>
  The states of the library after any sequence of calls that do not overlap in time, each with its
  own answer of the driver. The list has a pair for every call, the last call first: the bytes the
  check compared and the bytes the answer made the library charge.
\<close>

inductive serial :: "nv_abi \<Rightarrow> lib \<Rightarrow> (u64 \<times> u64) list \<Rightarrow> lib \<Rightarrow> bool" for K s where
  start: "serial K s [] s"
| call: "serial K s gs s' \<Longrightarrow> on_nvidia fstat mnr \<Longrightarrow> well_laid K (ucast cmd) arg \<Longrightarrow> env_ok env m s' \<Longrightarrow>
    driver_layout K drv cmd arg \<Longrightarrow> ioctl K env ini drv m fstat s' cmd arg = Inr (ret, arg', s'') \<Longrightarrow>
    serial K s ((requested K arg, granted K mnr drv cmd arg) # gs) s''"

lemma serial_invariant:
  assumes "serial K s gs s'" "abi_ok K" "limited s L" "within_budget others L" "balanced L"
  shows "\<exists>L'. limited s' L' \<and> balanced L' \<and> budget L' = budget L \<and> l_total L' = l_total L \<and>
    ((\<forall>(r, c) \<in> set gs. c \<le> r) \<longrightarrow> within_budget others L')"
  using assms
proof (induction rule: serial.induct)
  case (call gs s' fstat mnr cmd arg env m drv ini ret arg' s'')
  then obtain L1 where L1: "limited s' L1" "balanced L1" "budget L1 = budget L" "l_total L1 = l_total L"
    "(\<forall>(r, c) \<in> set gs. c \<le> r) \<longrightarrow> within_budget others L1" by blast
  let ?L = "snd (ledger_ioctl K mnr drv cmd arg L1)"
  have "limited s'' ?L"
    using ioctl_ledger [OF L1(1) call.hyps(2) call.prems(1) call.hyps(3-5), of ini] call.hyps(6) by auto
  then show ?case
    using ledger_ioctl_within [of others L1 K mnr drv cmd arg] ledger_ioctl_invariants [OF L1(2), of K mnr drv cmd arg] L1(3-5)
    by (intro exI [of _ ?L]) simp
qed blast

text \<open>An answer that charges more bytes than are free.\<close>

lemma charged_size_post:
  assumes "charged_size K maj mnr arg \<noteq> 0"
  shows "\<exists>h. ledger_post K maj mnr arg L = (0, charge \<lparr>dm_object = h, dm_size = charged_size K maj mnr arg\<rparr> L)"
  using assms
  by (auto simp: charged_size_def ledger_post_def ledger_alloc32_def ledger_alloc21_def split: ioctl_arg.splits alloc_parms.splits
      if_splits)

lemma charge_beyond_free:
  assumes "within_budget others L" "unat (l_free L) < unat (dm_size e)"
  shows "unat (l_total L) < sum_list (map (\<lambda>e. unat (dm_size e)) (blocks (charge e L))) + others"
    "unat (l_free (charge e L)) = 2 ^ 64 + unat (l_free L) - unat (dm_size e)"
proof -
  have "unat (l_free L - dm_size e) = 2 ^ 64 + unat (l_free L) - unat (dm_size e)"
    using assms(2) by (simp add: unat_sub_if_size word_size)
  then show "unat (l_free (charge e L)) = 2 ^ 64 + unat (l_free L) - unat (dm_size e)" by (simp add: charge_def)
qed (use assms in \<open>simp add: within_budget_def charge_def\<close>)

lemma within_budget_bound:
  assumes "within_budget others L"
  shows "sum_list (map (\<lambda>e. unat (dm_size e)) (blocks L)) + others \<le> unat (l_total L)"
  using assms by (simp add: within_budget_def)

subsection \<open>A small library state\<close>

text \<open>
  The numbers of the driver's interface as the current headers have them, a library with an
  empty ledger of 1000 bytes, and a driver that grants every request.
\<close>

definition demo_abi :: nv_abi where
  "demo_abi =
     \<lparr>NV_ESC_RM_VID_HEAP_CONTROL = 0x4A, NV_ESC_RM_ALLOC = 0x2B, NV_ESC_RM_CONTROL = 0x2A, NV_ESC_RM_FREE = 0x29,
      NVOS32_FUNCTION_ALLOC_SIZE = 2, NVOS32_FUNCTION_INFO = 4, NV01_MEMORY_LOCAL_USER = 0x40, NV01_DEVICE_0 = 0x80,
      NV20_SUBDEVICE_0 = 0x2080, NV2080_CTRL_CMD_FB_GET_INFO = 0x20801301, NV2080_CTRL_CMD_FB_GET_INFO_V2 = 0x20801303,
      FB_INFO_INDEX_TOTAL_RAM_SIZE = 7, FB_INFO_INDEX_HEAP_SIZE = 9, FB_INFO_INDEX_HEAP_FREE = 0x15,
      NV_OK = 0, NV_ERR_NO_MEMORY = 0x51\<rparr>"

definition demo_fb :: fb_info_t where
  "demo_fb = \<lparr>pid = 7, total_mem = 1000, free_mem = 1000\<rparr>"

definition demo_dev :: hook_state where
  "demo_dev = (gpu_device 16 32)\<lparr>mem_limited := True, fb_info := Some demo_fb,
     links := [16 \<mapsto> \<lparr>lnext = 16, lprev = 16\<rparr>, 32 \<mapsto> \<lparr>lnext = 32, lprev = 32\<rparr>]\<rparr>"

definition demo_lib :: lib where
  "demo_lib = \<lparr>dlfcn = no_dlfcn\<lparr>dl_ioctl := 4160, dl_dlsym := 4224, dl_once := True\<rparr>, prop_once = True, dev = demo_dev,
     token_thread = False, table = []\<rparr>"

definition demo_drv :: "u64 \<Rightarrow> ioctl_arg \<Rightarrow> int \<times> ioctl_arg" where
  "demo_drv cmd arg = (0, case arg of Arg32 p \<Rightarrow> Arg32 (p\<lparr>os32_status := 0\<rparr>) | a \<Rightarrow> a)"

definition demo_alloc :: "u64 \<Rightarrow> ioctl_arg" where
  "demo_alloc sz = Arg32 \<lparr>os32_function = 2, os32_status = 0, os32_total = 0, os32_free = 0, os32_hMemory = 5,
     os32_size = sz, os32_alignment = 8\<rparr>"

definition demo_stat :: "int \<times> stat" where
  "demo_stat = (0, \<lparr>st_mode = 0x21B6, st_rdev = 0xC3FF\<rparr>)"

definition demo_env :: "string \<Rightarrow> fb_env" where
  "demo_env path = \<lparr>fbe_calls = demo_calls, fbe_content = zero_fb, fbe_readlink = 0\<rparr>"

lemma demo_abi_ok: "abi_ok demo_abi"
  by (simp add: abi_ok_def demo_abi_def)

lemma demo_limited: "limited demo_lib (empty_ledger demo_fb)"
proof -
  have "wf_state demo_dev [] []"
    unfolding wf_state_def
    by (intro exI [of _ "[]"])
      (simp add: demo_dev_def gpu_device_def entries_def entry_cells_def cells_def dlist_def linked_def nx_def pv_def)
  then show ?thesis
    by (simp add: limited_def demo_lib_def no_dlfcn_def ledger_rel_def empty_ledger_def demo_dev_def gpu_device_def)
qed

lemma demo_on_nvidia: "on_nvidia demo_stat 255"
  by (simp add: on_nvidia_def get_device_number_def demo_stat_def S_IFMT_def S_IFCHR_def dev_major_def dev_minor_def
      NVIDIA_DEVICE_MAJOR_def)

lemma demo_laid: "well_laid demo_abi (ucast (0x4A :: u64)) (demo_alloc sz)"
  by (simp add: well_laid_def demo_alloc_def IOC_NR_def demo_abi_def)

lemma demo_env_ok: "env_ok demo_env 64 demo_lib"
  by (simp add: env_ok_def demo_env_def demo_calls_def shm_ok_def shm_opened_def MAP_FAILED_def fresh_block_def demo_lib_def
      demo_dev_def gpu_device_def off_device_mem_def off_rm_mem_def)

lemma demo_requested: "requested demo_abi (demo_alloc 600) = 600" "requested demo_abi (demo_alloc 1001) = 1008"
  by (simp_all add: requested_def demo_alloc_def demo_abi_def align_up_def)

lemma demo_layout: "driver_layout demo_abi demo_drv 0x4A (demo_alloc 600)"
  by (simp add: driver_layout_def demo_drv_def demo_alloc_def well_laid_def IOC_NR_def demo_abi_def)

lemma demo_granted: "granted demo_abi 255 demo_drv 0x4A (demo_alloc 600) = 600"
  by (simp add: granted_def demo_drv_def demo_alloc_def demo_abi_def charged_size_def NVIDIA_CTL_MINOR_def)

subsection \<open>Properties of the hooked call\<close>

text \<open>C1: The limit holds for answers no larger than the request: take any sequence of hooked calls
  that do not overlap in time, from a full budget, on well-formed parameter blocks, with \<open>malloc\<close> and
  the mapping of shared objects succeeding. Whatever sizes the driver answers with, every call
  leaves a charge counter that is the sum of the tracked blocks, and free and charged bytes sum to the
  limit, in 64-bit arithmetic. If moreover no answer charges more bytes than the check had compared
  for that call (the driver's choice: the code charges the returned size without a further check), the
  blocks sum to at most the limit and the free bytes are what they leave over, without wrap-around.\<close>

theorem charged_within_limit:
  assumes run: "serial K s gs s'" and K: "abi_ok K" and s: "limited s (empty_ledger fb)" and full: "free_mem fb = total_mem fb"
  shows "\<exists>L. limited s' L \<and> l_total L = total_mem fb \<and> l_alloc L = sum_list (map dm_size (blocks L)) \<and>
    l_free L + l_alloc L = total_mem fb \<and>
    ((\<forall>(r, c) \<in> set gs. c \<le> r) \<longrightarrow>
      sum_list (map (\<lambda>e. unat (dm_size e)) (blocks L)) \<le> unat (total_mem fb) \<and>
      unat (l_free L) = unat (total_mem fb) - sum_list (map (\<lambda>e. unat (dm_size e)) (blocks L)))"
proof -
  have "within_budget 0 (empty_ledger fb)" "balanced (empty_ledger fb)"
    using full by (simp_all add: within_budget_def balanced_def empty_ledger_def)
  from serial_invariant [OF run K s this] obtain L where L: "limited s' L" "balanced L" "budget L = budget (empty_ledger fb)"
    "l_total L = total_mem fb" "(\<forall>(r, c) \<in> set gs. c \<le> r) \<longrightarrow> within_budget 0 L" by (auto simp: empty_ledger_def)
  have "l_free L + l_alloc L = total_mem fb" using L(3) full by (simp add: budget_def empty_ledger_def)
  with L show ?thesis by (intro exI [of _ L]) (simp add: within_budget_def balanced_def, linarith)
qed

theorem charged_within_limit_witness:
  "\<exists>s' L. serial demo_abi demo_lib [(600, 600)] s' \<and> limited s' L \<and> l_free L + l_alloc L = 1000 \<and>
    sum_list (map (\<lambda>e. unat (dm_size e)) (blocks L)) \<le> 1000"
proof -
  obtain ret arg' s' where "ioctl demo_abi demo_env Inr demo_drv 64 demo_stat demo_lib 0x4A (demo_alloc 600) = Inr (ret, arg', s')"
    using ioctl_ledger [OF demo_limited demo_on_nvidia demo_abi_ok demo_laid demo_env_ok demo_layout] by blast
  with serial.call [OF serial.start demo_on_nvidia demo_laid demo_env_ok demo_layout]
  have run: "serial demo_abi demo_lib [(600, 600)] s'" by (metis demo_requested(1) demo_granted)
  from charged_within_limit [OF run demo_abi_ok demo_limited] run show ?thesis by (auto simp: demo_fb_def)
qed

text \<open>C33: The converse: the size the driver returns is charged without a check, so an answer that
  charges more bytes than are free, to a request that had passed the check, breaks the limit: the
  call returns 0, the blocks sum to more than the budget, and the free bytes wrap around to
  \<open>2 ^ 64\<close> less the excess, which later checks take for free memory.\<close>

theorem over_grant_wraps:
  assumes s: "limited s L" and L: "within_budget others L" and dv: "on_nvidia fstat mnr" and K: "abi_ok K"
    and laid: "well_laid K (ucast cmd) arg" and env: "env_ok env m s" and fits: "requested K arg \<le> l_free L"
    and drv: "driver_layout K drv cmd arg" and over: "l_free L < granted K mnr drv cmd arg"
  shows "\<exists>arg' s' L'. ioctl K env ini drv m fstat s cmd arg = Inr (0, arg', s') \<and> limited s' L' \<and> l_total L' = l_total L \<and>
    unat (l_total L) < sum_list (map (\<lambda>e. unat (dm_size e)) (blocks L')) + others \<and>
    unat (l_free L') = 2 ^ 64 - (unat (granted K mnr drv cmd arg) - unat (l_free L))"
proof -
  obtain ret arg' where r: "drv cmd arg = (ret, arg')" by (cases "drv cmd arg")
  with over have ret: "ret = 0" "granted K mnr drv cmd arg = charged_size K NVIDIA_DEVICE_MAJOR mnr arg'"
    by (auto simp: granted_def split: if_splits)
  have "charged_size K NVIDIA_DEVICE_MAJOR mnr arg' \<noteq> 0" using over ret(2) by auto
  then obtain e where e: "dm_size e = granted K mnr drv cmd arg"
    "ledger_post K NVIDIA_DEVICE_MAJOR mnr arg' L = (0, charge e L)"
    using charged_size_post [of K NVIDIA_DEVICE_MAJOR mnr arg' L] ret(2) by (metis device_mem_t.select_convs(2))
  have "ledger_ioctl K mnr drv cmd arg L = (0, charge e L)"
    using fits r ret(1) e(2) by (simp add: ledger_ioctl_def)
  moreover have "unat (l_free L) < unat (dm_size e)" using over e(1) by (simp add: word_less_nat_alt)
  note charge_beyond_free [OF L this] and this
  moreover have "unat (dm_size e) < 2 ^ 64" using unsigned_less [of "dm_size e"] by simp
  ultimately show ?thesis
    using ioctl_ledger [OF s dv K laid env drv, of ini] e(1) by (fastforce simp: charge_def)
qed

theorem over_grant_wraps_witness:
  "\<exists>arg' s' L'. ioctl demo_abi demo_env Inr (\<lambda>_ _. (0, demo_alloc 1200)) 64 demo_stat demo_lib 0x4A (demo_alloc 600) = Inr (0, arg', s') \<and>
    limited s' L' \<and> 1000 < sum_list (map (\<lambda>e. unat (dm_size e)) (blocks L')) \<and> unat (l_free L') = 2 ^ 64 - 200"
proof -
  have drv: "driver_layout demo_abi (\<lambda>_ _. (0, demo_alloc 1200)) 0x4A (demo_alloc 600)"
    by (simp add: driver_layout_def demo_alloc_def well_laid_def IOC_NR_def demo_abi_def)
  have over: "granted demo_abi 255 (\<lambda>_ _. (0, demo_alloc 1200)) 0x4A (demo_alloc 600) = 1200"
    by (simp add: granted_def demo_alloc_def demo_abi_def charged_size_def NVIDIA_CTL_MINOR_def)
  have "within_budget 0 (empty_ledger demo_fb)" by (simp add: within_budget_def empty_ledger_def demo_fb_def)
  from over_grant_wraps [OF demo_limited this demo_on_nvidia demo_abi_ok demo_laid demo_env_ok _ drv, of Inr] show ?thesis
    by (simp add: over demo_requested(1) empty_ledger_def demo_fb_def) blast
qed

text \<open>C2: A hooked call on a limited device implements the ledger: it always returns, with the
  value and the new ledger that the specification gives for the answer of the driver.\<close>

theorem ioctl_refines_ledger:
  assumes "limited s L" "on_nvidia fstat mnr" "abi_ok K" "well_laid K (ucast cmd) arg" "env_ok env m s"
    "driver_layout K drv cmd arg"
  shows "\<exists>arg' s'. ioctl K env ini drv m fstat s cmd arg = Inr (fst (ledger_ioctl K mnr drv cmd arg L), arg', s') \<and>
    limited s' (snd (ledger_ioctl K mnr drv cmd arg L))"
  by (rule ioctl_ledger [OF assms])

theorem ioctl_refines_ledger_witness:
  "\<exists>arg' s'. ioctl demo_abi demo_env Inr demo_drv 64 demo_stat demo_lib 0x4A (demo_alloc 600) = Inr (0, arg', s') \<and>
    limited s' \<lparr>l_total = 1000, l_free = 400, l_alloc = 600, blocks = [\<lparr>dm_object = 5, dm_size = 600\<rparr>], devs = []\<rparr>"
  using ioctl_refines_ledger [OF demo_limited demo_on_nvidia demo_abi_ok demo_laid demo_env_ok demo_layout, of Inr] demo_requested(1)
  by (simp add: ledger_ioctl_def ledger_post_def ledger_alloc32_def charge_def empty_ledger_def demo_drv_def demo_alloc_def
      demo_abi_def demo_fb_def NVIDIA_CTL_MINOR_def)

text \<open>C3: A request whose rounded size exceeds the free bytes never reaches the driver: the call
  returns 0 with the out-of-memory status in the parameter block, the budget in it where the
  block has room, and the library's state as it was.\<close>

theorem oversized_request_rejected:
  assumes "limited s L" "on_nvidia fstat mnr" "abi_ok K" "well_laid K (ucast cmd) arg" "l_free L < requested K arg"
  shows "ioctl K env ini drv m fstat s cmd arg = Inr (0, no_memory K L arg, s)"
  using ioctl_limited [OF assms(1-4)] assms(5) by simp

theorem oversized_request_rejected_witness:
  "ioctl demo_abi demo_env Inr demo_drv 64 demo_stat demo_lib 0x4A (demo_alloc 1001) =
     Inr (0, no_memory demo_abi (empty_ledger demo_fb) (demo_alloc 1001), demo_lib)"
  by (rule oversized_request_rejected [OF demo_limited demo_on_nvidia demo_abi_ok demo_laid])
    (simp add: demo_requested empty_ledger_def demo_fb_def)

text \<open>C7: Everything else passes through: without a memory limit, and on file descriptors that are
  not NVIDIA devices, the hooked call is the driver's call and the library's state does not
  change.\<close>

theorem ioctl_transparent:
  assumes "dl_ioctl (dlfcn s) \<noteq> NULL"
    and "\<not> mem_limited (dev s) \<or> (\<exists>ret maj mnr. get_device_number fstat (0, 0) = (ret, maj, mnr) \<and> maj \<noteq> NVIDIA_DEVICE_MAJOR)"
  shows "ioctl K env ini drv m fstat s cmd arg = Inr (fst (drv cmd arg), snd (drv cmd arg), s)"
  using assms
  by (auto simp: ioctl_def BUG_ON_def Let_def post_ioctl_def split: prod.splits)

theorem ioctl_transparent_witness:
  "ioctl demo_abi demo_env Inr demo_drv 64 (- 1, snd demo_stat) demo_lib 0x4A (demo_alloc 2000) =
     Inr (0, demo_alloc 2000, demo_lib)"
  using ioctl_transparent [of demo_lib "(- 1, snd demo_stat)" demo_abi demo_env Inr demo_drv 64 "0x4A" "demo_alloc 2000"]
  by (simp add: demo_lib_def no_dlfcn_def get_device_number_def NVIDIA_DEVICE_MAJOR_def demo_drv_def demo_alloc_def)

text \<open>C34: The rounding of the check, for an alignment that is a power of two: where size and
  alignment sum to at most \<open>2 ^ 64\<close>, the result is a multiple of the alignment, at least the size,
  and less than one alignment above it; where they sum to more, the sum wraps around, the result
  is 0 and the check admits the request.\<close>

theorem align_up_spec:
  assumes k: "k < 64"
  shows "if unat s + 2 ^ k \<le> 2 ^ 64
    then 2 ^ k dvd unat (align_up s (2 ^ k)) \<and> unat s \<le> unat (align_up s (2 ^ k)) \<and> unat (align_up s (2 ^ k)) < unat s + 2 ^ k
    else align_up s (2 ^ k) = 0"
proof -
  have a: "unat ((2::u64) ^ k) = 2 ^ k" "(2::u64) ^ k \<noteq> 0"
    using unat_exp_below [OF k] by (simp, metis power_not_zero unat_0 zero_neq_numeral)
  show ?thesis
    using align_up_bounds [OF a(2), of s] align_up_multiple [OF k refl, of s] align_up_wraps [OF k, of s] a(1) by simp
qed

theorem align_up_spec_witness: "align_up 0xFFFFFFFFFFFFFFFF (2 ^ 16) = 0"
  using align_up_spec [of 16 "0xFFFFFFFFFFFFFFFF"] by simp

subsection \<open>Properties of the symbol lookup\<close>

text \<open>C9: \<open>dlsym\<close> with an ordinary handle: a name of the hook table that the real function
  resolves is answered with its hook, and the real address is recorded in the entry; any other
  name, and a name that does not resolve, is answered as the real function does, and the table
  stays as it is.\<close>

theorem dlsym_hands_out_hooks:
  assumes s: "dl_dlsym (dlfcn s) \<noteq> NULL" and h: "handle \<noteq> RTLD_NEXT" and names: "distinct (map sym_name (table s))"
    and hooks: "\<forall>e \<in> set (table s). hook_pfn e \<noteq> NULL"
  shows "(\<forall>i < length (table s). api_dlsym api handle (sym_name (table s ! i)) \<noteq> NULL \<longrightarrow>
      dlsym api ini s caller handle (sym_name (table s ! i)) =
        Inr (hook_pfn (table s ! i), s\<lparr>table := (table s)[i := (table s ! i)\<lparr>real_pfn := api_dlsym api handle (sym_name (table s ! i))\<rparr>]\<rparr>)) \<and>
    (\<forall>symbol. symbol \<notin> sym_name ` set (table s) \<or> api_dlsym api handle symbol = NULL \<longrightarrow>
      dlsym api ini s caller handle symbol = Inr (api_dlsym api handle symbol, s))"
proof (intro conjI allI impI)
  fix i assume i: "i < length (table s)" "api_dlsym api handle (sym_name (table s ! i)) \<noteq> NULL"
  have "hook_pfn (table s ! i) \<noteq> NULL" using hooks i(1) by simp
  then show "dlsym api ini s caller handle (sym_name (table s ! i)) =
      Inr (hook_pfn (table s ! i), s\<lparr>table := (table s)[i := (table s ! i)\<lparr>real_pfn := api_dlsym api handle (sym_name (table s ! i))\<rparr>]\<rparr>)"
    using s h i find_entry_distinct [OF names i(1)] by (simp add: dlsym_def BUG_ON_def Let_def)
next
  fix symbol assume a: "symbol \<notin> sym_name ` set (table s) \<or> api_dlsym api handle symbol = NULL"
  obtain r where "find_entry (table s) (length (table s)) symbol = Inr r" using find_entry_total by blast
  with a s h show "dlsym api ini s caller handle symbol = Inr (api_dlsym api handle symbol, s)"
    using find_entry_None [of "table s" symbol] by (cases r) (auto simp: dlsym_def BUG_ON_def Let_def)
qed

text \<open>A linker that knows two modules above the library.\<close>

definition demo_api :: dl_api where
  "demo_api =
     \<lparr>api_dladdr = Some ''libcuda_hook.so'',
      api_dlopen = (\<lambda>name. if name = ''libcuda_hook.so'' then 1 else if name = ''a'' then 2 else 3),
      api_chain = (\<lambda>h. [\<lparr>l_addr = 100, l_name = ''libcuda_hook.so''\<rparr>, \<lparr>l_addr = 200, l_name = ''a''\<rparr>, \<lparr>l_addr = 300, l_name = ''b''\<rparr>]),
      api_dlsym = (\<lambda>h name. if h = 3 \<and> name = ''cuInit'' then 555 else NULL)\<rparr>"

theorem dlsym_hands_out_hooks_witness:
  "dlsym demo_api Inr (demo_lib\<lparr>table := [\<lparr>real_pfn = NULL, hook_pfn = 77, sym_name = ''cuInit'', ent_flags = 0, ent_cudaVersion = 0\<rparr>]\<rparr>) 0 3 ''cuInit'' =
     Inr (77, demo_lib\<lparr>table := [\<lparr>real_pfn = 555, hook_pfn = 77, sym_name = ''cuInit'', ent_flags = 0, ent_cudaVersion = 0\<rparr>]\<rparr>)"
proof -
  let ?s = "demo_lib\<lparr>table := [\<lparr>real_pfn = NULL, hook_pfn = 77, sym_name = ''cuInit'', ent_flags = 0, ent_cudaVersion = 0\<rparr>]\<rparr>"
  have "dl_dlsym (dlfcn ?s) \<noteq> NULL" "(3::addr) \<noteq> RTLD_NEXT" by (simp_all add: demo_lib_def RTLD_NEXT_def)
  from dlsym_hands_out_hooks [OF this, of demo_api Inr 0] show ?thesis by (simp add: demo_api_def)
qed

text \<open>C37: \<open>dlsym\<close> with \<open>RTLD_NEXT\<close> returns the first definition in the modules that follow the
  library in the link map and do not lie above the caller, the first of these not counted, and
  the null pointer when none of them has one.\<close>

theorem dlsym_next:
  assumes d: "dl_dlsym (dlfcn s) \<noteq> NULL" "dl_dlopen (dlfcn s) \<noteq> NULL" "dl_dlclose (dlfcn s) \<noteq> NULL" "dl_dladdr (dlfcn s) \<noteq> NULL"
    and self: "api_dladdr api = Some name" "api_dlopen api name \<noteq> NULL"
    and loaded: "\<forall>m \<in> set (api_chain api (api_dlopen api name)). api_dlopen api (l_name m) \<noteq> NULL"
  shows "dlsym api ini s caller RTLD_NEXT symbol =
    Inr (first_resolved api symbol (candidates caller (api_chain api (api_dlopen api name))), s)"
  using d self next_loop_first [OF loaded, of caller symbol]
  by (simp add: dlsym_def BUG_ON_def get_next_symbol_def Let_def)

theorem dlsym_next_witness:
  "dlsym demo_api Inr (demo_lib\<lparr>dlfcn := \<lparr>dl_once = True, dl_dlopen = 1, dl_dlsym = 2, dl_dladdr = 3, dl_dlclose = 4, dl_ioctl = 5\<rparr>\<rparr>)
     350 RTLD_NEXT ''cuInit'' =
   Inr (555, demo_lib\<lparr>dlfcn := \<lparr>dl_once = True, dl_dlopen = 1, dl_dlsym = 2, dl_dladdr = 3, dl_dlclose = 4, dl_ioctl = 5\<rparr>\<rparr>)"
  using dlsym_next [of "demo_lib\<lparr>dlfcn := \<lparr>dl_once = True, dl_dlopen = 1, dl_dlsym = 2, dl_dladdr = 3, dl_dlclose = 4, dl_ioctl = 5\<rparr>\<rparr>"
      demo_api "''libcuda_hook.so''" Inr 350 "''cuInit''"]
  by (simp add: demo_api_def candidates_def first_resolved_def resolve_def)

text \<open>C38: Where no loaded module has a classic hash table, no call of the hooked \<open>ioctl\<close> or \<open>dlsym\<close>
  ever returns, whatever the limits are and whether or not the constructor of the library has run. The
  process exits with -1 when the device was initialised before (the normal case) or the
  initialisation inside the call completes; otherwise the call ends or blocks as that initialisation
  does.\<close>

theorem unresolved_library_exits:
  assumes mods: "\<forall>info \<in> set infos. \<forall>h. DT_HASH h \<notin> set (section_of info)" "\<forall>info \<in> set infos. readable_module im info"
    and s: "dl_ioctl (dlfcn s) = NULL" "dl_dlsym (dlfcn s) = NULL"
  shows "\<exists>e. ioctl K env (init im infos ie) drv m fstat s cmd arg = Inl e \<and>
    dlsym api (init im infos ie) s caller handle symbol = Inl e \<and>
    (dl_once (dlfcn s) \<or> prop_once s \<or> (\<exists>r. init_device_prop_once ie (dev s) = Inr (Some r)) \<longrightarrow> e = ProcessExit (- 1)) \<and>
    (\<not> dl_once (dlfcn s) \<and> \<not> prop_once s \<longrightarrow>
      (\<forall>f. init_device_prop_once ie (dev s) = Inl f \<longrightarrow> e = f) \<and> (init_device_prop_once ie (dev s) = Inr None \<longrightarrow> e = Deadlock))"
proof -
  have "dl_iterate_phdr im infos d = Inr d" for d
    using dl_iterate_phdr_defs [OF mods(2), of d] module_defs_no_hash [OF mods(1), of im]
    by (simp only: bind_all_Nil(1))
  then have ini: "init im infos ie s = bindR (init_device_prop ie (prop_once s, dev s)) (\<lambda>r.
      case r of None \<Rightarrow> Inl Deadlock
      | Some (fin, started, st) \<Rightarrow> Inr (s\<lparr>prop_once := fin, dev := st, token_thread := token_thread s \<or> started\<rparr>))"
    by (simp add: init_def)
  show ?thesis
  proof (cases "dl_once (dlfcn s)")
    case True
    then show ?thesis using s by (simp add: ioctl_def dlsym_def run_once_def BUG_ON_def)
  next
    case False
    show ?thesis
    proof (cases "init im infos ie s")
      case (Inl f)
      with False s show ?thesis
        using ini by (auto simp: ioctl_def dlsym_def run_once_def init_device_prop_def split: if_splits)
    next
      case (Inr s')
      then have "dlfcn s' = dlfcn s" using ini by (auto simp: bindR_eq_Inr split: option.splits)
      with Inr False s show ?thesis
        using ini by (auto simp: ioctl_def dlsym_def run_once_def BUG_ON_def init_device_prop_def split: if_splits)
    qed
  qed
qed

text \<open>The constructor completes with a memory limit of 2 GiB.\<close>

lemma demo_init_once: "\<exists>r. init_device_prop_once (demo_init None) (gpu_device 16 32) = Inr (Some r)"
proof -
  obtain st where "init_device_prop_once (demo_init None) (gpu_device 16 32) = init_core (demo_init None) st" "\<not> core_limited st"
    using init_once_mem [OF demo_mem_limit demo_shm, of 16 32 None] by auto
  moreover have "get_core_limit (ie_core_limit (demo_init None)) None = (- 1, None, None)"
    by (simp add: demo_init_def get_core_limit_def get_limit_def)
  ultimately have "init_device_prop_once (demo_init None) (gpu_device 16 32) = Inr (Some (False, st))" by (simp add: init_core_def)
  then show ?thesis by blast
qed

theorem unresolved_library_exits_witness:
  "\<forall>ran. ioctl demo_abi demo_env (init demo_image [demo_module [DT_OTHER, DT_STRTAB 100, DT_SYMTAB 3]] (demo_init None))
     demo_drv 64 demo_stat (demo_lib\<lparr>dlfcn := no_dlfcn, prop_once := ran, dev := gpu_device 16 32\<rparr>) 0x4A (demo_alloc 600) =
       Inl (ProcessExit (- 1))"
proof
  fix ran
  show "ioctl demo_abi demo_env (init demo_image [demo_module [DT_OTHER, DT_STRTAB 100, DT_SYMTAB 3]] (demo_init None))
      demo_drv 64 demo_stat (demo_lib\<lparr>dlfcn := no_dlfcn, prop_once := ran, dev := gpu_device 16 32\<rparr>) 0x4A (demo_alloc 600) =
        Inl (ProcessExit (- 1))"
    using unresolved_library_exits [of "[demo_module [DT_OTHER, DT_STRTAB 100, DT_SYMTAB 3]]" demo_image
        "demo_lib\<lparr>dlfcn := no_dlfcn, prop_once := ran, dev := gpu_device 16 32\<rparr>" demo_abi demo_env "demo_init None"] demo_init_once
    by (fastforce simp: demo_module_def section_of_def readable_module_def readable_def no_dlfcn_def)
qed

end
