(* ===== verification/Interleave.thy ===== *)
theory Interleave
  imports Dlfcn
begin

text \<open>
  Calls of several threads at once. The check before the driver call and the accounting after
  it are two critical sections of the library's mutex, with the driver call between them; the
  step relation below interleaves these sections of any number of calls. It also collects what
  happens on the paths the accounting gets wrong: a failed \<open>malloc\<close> and the release of a
  handle that is not tracked.
\<close>

subsection \<open>The step relation\<close>

text \<open>A call in flight: the minor number of its device, its command and its argument.\<close>

type_synonym flight = "u32 \<times> u64 \<times> ioctl_arg"

inductive step ::
  "nv_abi \<Rightarrow> (u64 \<Rightarrow> ioctl_arg \<Rightarrow> int \<times> ioctl_arg) \<Rightarrow> hook_state \<times> flight list \<Rightarrow> hook_state \<times> flight list \<Rightarrow> bool"
  for K drv where
  check: "well_laid K (ucast cmd) arg \<Longrightarrow> pre_ioctl K st NVIDIA_DEVICE_MAJOR mnr (ucast cmd) arg = Inr (0, False, arg', st') \<Longrightarrow>
    step K drv (st, fl) (st', (mnr, cmd, arg') # fl)"
| reject: "well_laid K (ucast (cmd :: u64)) arg \<Longrightarrow> pre_ioctl K st NVIDIA_DEVICE_MAJOR mnr (ucast cmd) arg = Inr (ret, True, arg', st') \<Longrightarrow>
    step K drv (st, fl) (st', fl)"
| refuse: "(mnr, cmd, arg) \<in> set fl \<Longrightarrow> fst (drv cmd arg) \<noteq> 0 \<Longrightarrow> step K drv (st, fl) (st, remove1 (mnr, cmd, arg) fl)"
| account: "(mnr, cmd, arg) \<in> set fl \<Longrightarrow> drv cmd arg = (0, arg') \<Longrightarrow> driver_layout K drv cmd arg \<Longrightarrow>
    fresh_block st m \<Longrightarrow> \<forall>path. shm_ok (fbe_calls (env path)) \<Longrightarrow>
    post_ioctl K env st m NVIDIA_DEVICE_MAJOR mnr (ucast cmd) arg' = Inr (ret, arg'', st') \<Longrightarrow>
    step K drv (st, fl) (st', remove1 (mnr, cmd, arg) fl)"

inductive interleaved ::
  "nv_abi \<Rightarrow> (u64 \<Rightarrow> ioctl_arg \<Rightarrow> int \<times> ioctl_arg) \<Rightarrow> hook_state \<times> flight list \<Rightarrow> hook_state \<times> flight list \<Rightarrow> bool"
  for K drv c0 where
  idle: "interleaved K drv c0 c0"
| more_steps: "interleaved K drv c0 c \<Longrightarrow> step K drv c c' \<Longrightarrow> interleaved K drv c0 c'"

lemma step_ledger:
  assumes "step K drv (st, fl) (st', fl')" "abi_ok K" "ledger_rel st L" "balanced L"
  shows "\<exists>L'. ledger_rel st' L' \<and> balanced L' \<and> budget L' = budget L \<and> l_total L' = l_total L"
  using assms(1)
proof (cases rule: step.cases)
  case (check cmd arg mnr arg')
  then show ?thesis using pre_ioctl_check [OF assms(3,2) check(2)] assms(3,4) by auto
next
  case (reject cmd arg mnr ret arg')
  then show ?thesis using pre_ioctl_check [OF assms(3,2) reject(2)] assms(3,4) by auto
next
  case (refuse mnr cmd arg)
  then show ?thesis using assms(3,4) by auto
next
  case (account mnr cmd arg arg' m env ret arg'')
  have "well_laid K (ucast cmd) arg'" using account(3,4) by (simp add: driver_layout_def)
  then show ?thesis
    using post_ioctl_ledger [OF assms(3) account(5) assms(2) _ account(6), of "ucast cmd" arg' NVIDIA_DEVICE_MAJOR mnr]
      ledger_post_invariants [OF assms(4), of K NVIDIA_DEVICE_MAJOR mnr arg'] account(7)
    by auto
qed

lemma interleaved_ledger:
  assumes "interleaved K drv c0 c" "abi_ok K" "ledger_rel (fst c0) L" "balanced L"
  shows "\<exists>L'. ledger_rel (fst c) L' \<and> balanced L' \<and> budget L' = budget L \<and> l_total L' = l_total L"
  using assms
proof (induction rule: interleaved.induct)
  case (more_steps c c')
  then obtain L1 where L1: "ledger_rel (fst c) L1" "balanced L1" "budget L1 = budget L" "l_total L1 = l_total L" by blast
  show ?case
    using step_ledger [of K drv "fst c" "snd c" "fst c'" "snd c'" L1] more_steps.hyps(2) more_steps.prems(1) L1 by auto
qed blast

subsection \<open>Two requests that both pass the check\<close>

definition demo_flight :: flight where
  "demo_flight = (255, 0x4A, demo_alloc 600)"

lemma demo_post:
  "\<exists>st'. post_ioctl demo_abi demo_env demo_dev 64 NVIDIA_DEVICE_MAJOR 255 0x4A (demo_alloc 600) =
      Inr (0, Arg32 \<lparr>os32_function = 2, os32_status = 0, os32_total = 1000, os32_free = 400, os32_hMemory = 5,
        os32_size = 600, os32_alignment = 8\<rparr>, st') \<and> fresh_block st' 128"
  by (simp add: post_ioctl_def IOC_NR_def demo_abi_def demo_alloc_def post_rm_vid_heap_control_def NVIDIA_CTL_MINOR_def
      post_vid_heap_alloc_def mutex_lock_def mutex_unlock_def demo_dev_def gpu_device_def add_mem_entry_def
      off_device_mem_def off_rm_mem_def new_cell_def demo_fb_def fresh_block_def
      list_add_def list_add_between_def get_next_def set_next_def set_prev_def)

lemma demo_drv_answer: "demo_drv 0x4A (demo_alloc 600) = (0, demo_alloc 600)"
  by (simp add: demo_drv_def demo_alloc_def)

lemma demo_laid32: "well_laid demo_abi 0x4A (demo_alloc sz)"
  using demo_laid by simp

lemma demo_ledger_post:
  "ledger_post demo_abi NVIDIA_DEVICE_MAJOR 255 (demo_alloc 600) L = (0, charge \<lparr>dm_object = 5, dm_size = 600\<rparr> L)"
  by (simp add: ledger_post_def ledger_alloc32_def demo_alloc_def demo_abi_def NVIDIA_CTL_MINOR_def)

lemma demo_shm_env: "\<forall>path. shm_ok (fbe_calls (demo_env path))"
  using demo_env_ok by (simp add: env_ok_def)

lemma demo_checks:
  assumes "ledger_rel st L" "600 \<le> l_free L"
  shows "step demo_abi demo_drv (st, fl) (st, demo_flight # fl)"
proof -
  have "\<not> l_free L < 600" using assms(2) by (simp only: not_less)
  then have "pre_ioctl demo_abi st NVIDIA_DEVICE_MAJOR 255 0x4A (demo_alloc 600) = Inr (0, False, demo_alloc 600, st)"
    using pre_ioctl_check [OF assms(1) demo_abi_ok demo_laid32, of NVIDIA_DEVICE_MAJOR 255 600] demo_requested(1)
    by simp
  then show ?thesis
    using step.check [of demo_abi "0x4A" "demo_alloc 600" st 255] demo_laid32 by (simp add: demo_flight_def)
qed

lemma demo_accounts:
  assumes "post_ioctl demo_abi demo_env st m NVIDIA_DEVICE_MAJOR 255 0x4A (demo_alloc 600) = Inr (ret, a, st')" "fresh_block st m"
  shows "step demo_abi demo_drv (st, demo_flight # fl) (st', fl)"
  using step.account [of 255 "0x4A" "demo_alloc 600" "demo_flight # fl" demo_drv "demo_alloc 600" demo_abi st m demo_env ret a st']
    assms demo_drv_answer demo_layout demo_shm_env
  by (simp add: demo_flight_def)

subsection \<open>A mutex that stays locked\<close>

text \<open>
  The branches that take the mutex, of the check before the driver call and of the accounting
  after it, for arguments of the layout their request number announces.
\<close>

definition takes_lock_before :: "nv_abi \<Rightarrow> ioctl_arg \<Rightarrow> bool" where
  "takes_lock_before K arg =
     (case arg of
        Arg32 p \<Rightarrow> if os32_function p = NVOS32_FUNCTION_ALLOC_SIZE K then os32_alignment p \<noteq> 0
          else os32_function p = NVOS32_FUNCTION_INFO K
      | Arg21 p \<Rightarrow> (case os21_pAllocParms p of MemoryParms q \<Rightarrow> map_alignment q \<noteq> 0 | _ \<Rightarrow> False)
      | _ \<Rightarrow> False)"

definition takes_lock_after :: "nv_abi \<Rightarrow> u32 \<Rightarrow> ioctl_arg \<Rightarrow> bool" where
  "takes_lock_after K mnr arg =
     (case arg of
        Arg32 p \<Rightarrow> mnr = NVIDIA_CTL_MINOR \<and> os32_function p = NVOS32_FUNCTION_ALLOC_SIZE K \<and> os32_status p = NV_OK K \<and>
          os32_alignment p \<noteq> 0
      | Arg21 p \<Rightarrow> (case os21_pAllocParms p of
          DeviceParms d \<Rightarrow> True
        | MemoryParms q \<Rightarrow> os21_status p = NV_OK K \<and> map_alignment q \<noteq> 0
        | OtherParms \<Rightarrow> os21_hClass p = NV20_SUBDEVICE_0 K)
      | Arg54 p \<Rightarrow> mnr = NVIDIA_CTL_MINOR \<and> os54_status p = NV_OK K \<and> os54_params p \<noteq> OtherCtrl
      | Arg00 p \<Rightarrow> mnr = NVIDIA_CTL_MINOR \<and> os00_status p = NV_OK K \<and> os00_hObjectOld p \<noteq> os00_hRoot p
      | ArgOther \<Rightarrow> False)"

lemma mutex_locked: "mu st \<Longrightarrow> mutex_lock st = Inl Deadlock"
  by (simp add: mutex_lock_def)

lemma pre_ioctl_locked:
  assumes "mu st" "abi_ok K" "well_laid K cmd arg"
  shows "pre_ioctl K st maj mnr cmd arg = (if takes_lock_before K arg then Inl Deadlock else Inr (0, False, arg, st))"
  using assms mutex_locked [OF assms(1)]
  by (cases arg) (auto simp: takes_lock_before_def pre_ioctl_def well_laid_def pre_vid_heap_alloc_def pre_rm_alloc_def abi_ok_def
      Let_def split: alloc_parms.splits)

lemma post_ioctl_locked:
  assumes "mu st" "abi_ok K" "well_laid K cmd arg"
  shows "if takes_lock_after K mnr arg then post_ioctl K env st m NVIDIA_DEVICE_MAJOR mnr cmd arg = Inl Deadlock
    else \<exists>r. post_ioctl K env st m NVIDIA_DEVICE_MAJOR mnr cmd arg = Inr (r, arg, st)"
  using assms mutex_locked [OF assms(1)]
  by (cases arg) (auto simp: takes_lock_after_def post_ioctl_def well_laid_def abi_ok_def post_rm_vid_heap_control_def
      post_vid_heap_alloc_def post_rm_control_def post_rm_control_fb_get_info_def post_rm_control_fb_get_info_v2_def post_rm_free_def
      post_rm_alloc_def post_device_rm_alloc_def post_ctrl_rm_alloc_def post_memory_rm_alloc_def
      split: alloc_parms.splits ctrl_params.splits)

lemma charge_without_memory:
  assumes "abi_ok K" "\<not> mu st" "well_laid K cmd arg" "takes_lock_after K mnr arg"
    and "(\<exists>p. arg = Arg32 p) \<or> (\<exists>p q. arg = Arg21 p \<and> os21_pAllocParms p = MemoryParms q)"
  shows "post_ioctl K env st NULL NVIDIA_DEVICE_MAJOR mnr cmd arg = Inr (- ENOMEM, arg, st\<lparr>mu := True\<rparr>)"
  using assms
  by (auto simp: takes_lock_after_def post_ioctl_def well_laid_def abi_ok_def post_rm_vid_heap_control_def post_vid_heap_alloc_def
      post_rm_alloc_def post_memory_rm_alloc_def mutex_lock_def)

subsection \<open>Properties of overlapping calls\<close>

text \<open>C4: However the critical sections of concurrent calls interleave, the library's state stays
  well formed, the charge counter is the sum of the tracked blocks, and free and charged bytes
  keep their sum, in 64-bit arithmetic.\<close>

theorem interleaving_keeps_books:
  assumes "interleaved K drv (st, []) (st', fl)" "abi_ok K" "ledger_rel st L" "balanced L"
  shows "\<exists>L'. ledger_rel st' L' \<and> l_alloc L' = sum_list (map dm_size (blocks L')) \<and>
    l_free L' + l_alloc L' = l_free L + l_alloc L \<and> l_total L' = l_total L"
  using interleaved_ledger [OF assms(1,2)] assms(3,4) by (fastforce simp: balanced_def budget_def)

theorem interleaving_keeps_books_witness:
  "\<exists>st' fl L'. interleaved demo_abi demo_drv (demo_dev, []) (st', fl) \<and> fl \<noteq> [] \<and> ledger_rel st' L' \<and>
    l_free L' + l_alloc L' = 1000"
proof -
  have L: "ledger_rel demo_dev (empty_ledger demo_fb)" using demo_limited by (simp add: limited_def demo_lib_def)
  have "interleaved demo_abi demo_drv (demo_dev, []) (demo_dev, [demo_flight])"
    using demo_checks [OF L] interleaved.intros by (simp add: empty_ledger_def demo_fb_def) blast
  with interleaving_keeps_books [OF this demo_abi_ok L] show ?thesis
    by (fastforce simp: balanced_def empty_ledger_def demo_fb_def)
qed

text \<open>C32: The limit does not hold for overlapping calls: check and charge are separate critical
  sections, so two requests of 600 bytes both pass the check on a budget of 1000 bytes, both
  are charged, and the free bytes wrap around to a huge number.\<close>

theorem overlapping_calls_overcommit:
  "\<exists>st L. interleaved demo_abi demo_drv (demo_dev, []) (st, []) \<and> ledger_rel st L \<and> l_total L = 1000 \<and>
    sum_list (map (\<lambda>e. unat (dm_size e)) (blocks L)) = 1200 \<and> l_free L = - 200"
proof -
  let ?e = "\<lparr>dm_object = 5, dm_size = 600\<rparr>" and ?L = "empty_ledger demo_fb"
  have L: "ledger_rel demo_dev ?L" using demo_limited by (simp add: limited_def demo_lib_def)
  have free: "600 \<le> l_free ?L" by (simp add: empty_ledger_def demo_fb_def)
  obtain a1 st1 where st1: "post_ioctl demo_abi demo_env demo_dev 64 NVIDIA_DEVICE_MAJOR 255 0x4A (demo_alloc 600) = Inr (0, a1, st1)"
    "fresh_block st1 128" using demo_post by blast
  have m: "fresh_block demo_dev 64" using demo_env_ok by (simp add: env_ok_def demo_lib_def)
  have L1: "ledger_rel st1 (charge ?e ?L)"
    using post_ioctl_ledger [OF L m demo_abi_ok demo_laid32 demo_shm_env, of NVIDIA_DEVICE_MAJOR 255 600] st1(1)
    by (auto simp: demo_ledger_post)
  obtain a2 st2 where st2: "post_ioctl demo_abi demo_env st1 128 NVIDIA_DEVICE_MAJOR 255 0x4A (demo_alloc 600) = Inr (0, a2, st2)"
    "ledger_rel st2 (charge ?e (charge ?e ?L))"
    using post_ioctl_ledger [OF L1 st1(2) demo_abi_ok demo_laid32 demo_shm_env, of NVIDIA_DEVICE_MAJOR 255 600]
    by (auto simp: demo_ledger_post)
  have "interleaved demo_abi demo_drv (demo_dev, []) (st2, [])"
    using interleaved.idle demo_checks [OF L free] demo_checks [OF L free] demo_accounts [OF st1(1) m] demo_accounts [OF st2(1) st1(2)]
    by (meson interleaved.more_steps)
  with st2(2) show ?thesis
    by (intro exI [of _ st2] exI [of _ "charge ?e (charge ?e ?L)"]) (simp add: charge_def empty_ledger_def demo_fb_def)
qed

subsection \<open>Properties of allocation and release\<close>

text \<open>C5: Freeing what was just allocated gives everything back: after the driver has granted an
  allocation and released its handle again, the ledger is the one before.\<close>

theorem alloc_free_roundtrip:
  assumes rel: "ledger_rel st L" and m: "fresh_block st m"
    and ok: "os32_status p = NV_OK K" "os32_alignment p \<noteq> 0" "os32_function p = NVOS32_FUNCTION_ALLOC_SIZE K"
    and f: "os00_status q = NV_OK K" "os00_hObjectOld q = os32_hMemory p" "os00_hObjectOld q \<noteq> os00_hRoot q"
      "os00_hRoot q \<noteq> os00_hObjectParent q"
  shows "\<exists>p' st1 st2. post_rm_vid_heap_control K st m NVIDIA_CTL_MINOR p = Inr (0, p', st1) \<and>
    post_rm_free K st1 NVIDIA_CTL_MINOR q = Inr (0, st2) \<and> ledger_rel st2 L"
proof -
  let ?e = "\<lparr>dm_object = os32_hMemory p, dm_size = os32_size p\<rparr>"
  obtain p' st1 where st1: "post_rm_vid_heap_control K st m NVIDIA_CTL_MINOR p = Inr (0, p', st1)" "ledger_rel st1 (charge ?e L)"
    using post_rm_vid_heap_control_refines [OF rel m, of K NVIDIA_CTL_MINOR p] ok by (auto simp: ledger_alloc32_def)
  have "refund (os32_hMemory p) (charge ?e L) = L"
    using take_entry_first [of "[]" "\<lambda>e. dm_object e = os32_hMemory p" ?e "blocks L"]
    by (simp add: refund_def charge_def)
  with post_rm_free_refines [OF st1(2), of K NVIDIA_CTL_MINOR q] f st1(1) show ?thesis
    by (auto simp: ledger_free_def)
qed

theorem alloc_free_roundtrip_witness:
  "\<exists>p' st1 st2. post_rm_vid_heap_control demo_abi demo_dev 64 NVIDIA_CTL_MINOR
      \<lparr>os32_function = 2, os32_status = 0, os32_total = 0, os32_free = 0, os32_hMemory = 5, os32_size = 600, os32_alignment = 8\<rparr> =
      Inr (0, p', st1) \<and>
    post_rm_free demo_abi st1 NVIDIA_CTL_MINOR \<lparr>os00_hRoot = 1, os00_hObjectParent = 2, os00_hObjectOld = 5, os00_status = 0\<rparr> =
      Inr (0, st2) \<and> ledger_rel st2 (empty_ledger demo_fb)"
  by (rule alloc_free_roundtrip)
    (use demo_limited demo_env_ok in \<open>simp_all add: limited_def demo_lib_def env_ok_def demo_abi_def\<close>)

text \<open>C30: Releasing a handle that is not tracked refunds the oldest tracked block, although it is
  still allocated: its size returns to the free bytes and it is no longer charged. Handles of
  other objects under a device, such as a subdevice, take this path.\<close>

theorem untracked_free_refunds_oldest:
  assumes rel: "ledger_rel st L" and bs: "blocks L = bs @ [e]" and free: "os00_hObjectOld q \<notin> dm_object ` set (blocks L)"
    and f: "os00_status q = NV_OK K" "os00_hObjectOld q \<noteq> os00_hRoot q" "os00_hRoot q \<noteq> os00_hObjectParent q"
  shows "\<exists>st'. post_rm_free K st NVIDIA_CTL_MINOR q = Inr (0, st') \<and>
    ledger_rel st' (L\<lparr>l_free := l_free L + dm_size e, l_alloc := l_alloc L - dm_size e, blocks := bs\<rparr>)"
proof -
  have "take_entry (\<lambda>x. dm_object x = os00_hObjectOld q) (blocks L) = Some (e, bs)"
    unfolding bs using free by (intro take_entry_last) (force simp: bs)
  then have "refund (os00_hObjectOld q) L = L\<lparr>l_free := l_free L + dm_size e, l_alloc := l_alloc L - dm_size e, blocks := bs\<rparr>"
    by (simp add: refund_def)
  with post_rm_free_refines [OF rel, of K NVIDIA_CTL_MINOR q] f show ?thesis by (auto simp: ledger_free_def)
qed

theorem untracked_free_refunds_oldest_witness:
  "\<exists>st st'. ledger_rel st (charge \<lparr>dm_object = 5, dm_size = 600\<rparr> (empty_ledger demo_fb)) \<and>
    post_rm_free demo_abi st NVIDIA_CTL_MINOR \<lparr>os00_hRoot = 1, os00_hObjectParent = 2, os00_hObjectOld = 9, os00_status = 0\<rparr> =
      Inr (0, st') \<and> ledger_rel st' (empty_ledger demo_fb)"
proof -
  let ?L = "charge \<lparr>dm_object = 5, dm_size = 600\<rparr> (empty_ledger demo_fb)"
  have L: "ledger_rel demo_dev (empty_ledger demo_fb)" and m: "fresh_block demo_dev 64"
    using demo_limited demo_env_ok by (simp_all add: limited_def env_ok_def demo_lib_def)
  obtain st where st: "ledger_rel st ?L"
    using post_ioctl_ledger [OF L m demo_abi_ok demo_laid32 demo_shm_env, of NVIDIA_DEVICE_MAJOR 255 600]
    by (auto simp: demo_ledger_post)
  with untracked_free_refunds_oldest [OF st, of "[]" "\<lparr>dm_object = 5, dm_size = 600\<rparr>"
      "\<lparr>os00_hRoot = 1, os00_hObjectParent = 2, os00_hObjectOld = 9, os00_status = 0\<rparr>" demo_abi]
  show ?thesis by (auto simp: charge_def empty_ledger_def demo_abi_def)
qed

text \<open>C31: When \<open>malloc\<close> fails while a granted allocation is charged, on either of the two paths, the
  dispatcher returns \<open>-ENOMEM\<close> with the mutex still locked. From then on every branch that takes the
  mutex blocks for ever, for every well-formed argument: the two checks of an allocation and the information request
  before the driver call, and after it the charge on both paths, the registration of a device and of a
  subdevice, both memory queries, and a release. All other branches return, with the state
  as it was, so nothing ever unlocks the mutex.\<close>

theorem malloc_failure_deadlocks:
  assumes K: "abi_ok K" and st: "\<not> mu st" and laid: "well_laid K cmd arg" and lock: "takes_lock_after K mnr arg"
    and charge: "(\<exists>p. arg = Arg32 p) \<or> (\<exists>p q. arg = Arg21 p \<and> os21_pAllocParms p = MemoryParms q)"
  shows "\<exists>st'. post_ioctl K env st NULL NVIDIA_DEVICE_MAJOR mnr cmd arg = Inr (- ENOMEM, arg, st') \<and>
    (\<forall>cmd' arg'. well_laid K cmd' arg' \<longrightarrow>
      (\<forall>maj' mnr'. pre_ioctl K st' maj' mnr' cmd' arg' =
        (if takes_lock_before K arg' then Inl Deadlock else Inr (0, False, arg', st'))) \<and>
      (\<forall>env' m' mnr'. if takes_lock_after K mnr' arg' then post_ioctl K env' st' m' NVIDIA_DEVICE_MAJOR mnr' cmd' arg' = Inl Deadlock
        else \<exists>r. post_ioctl K env' st' m' NVIDIA_DEVICE_MAJOR mnr' cmd' arg' = Inr (r, arg', st')))"
proof -
  have "post_ioctl K env st NULL NVIDIA_DEVICE_MAJOR mnr cmd arg = Inr (- ENOMEM, arg, st\<lparr>mu := True\<rparr>)"
    by (rule charge_without_memory [OF K st laid lock charge])
  moreover have "mu (st\<lparr>mu := True\<rparr>)" by simp
  note pre_ioctl_locked [OF this K] and post_ioctl_locked [OF this K]
  ultimately show ?thesis by (intro exI [of _ "st\<lparr>mu := True\<rparr>"]) metis
qed

theorem malloc_failure_deadlocks_witness:
  "\<exists>st'. post_ioctl demo_abi demo_env demo_dev NULL NVIDIA_DEVICE_MAJOR 255 0x4A (demo_alloc 600) = Inr (- ENOMEM, demo_alloc 600, st') \<and>
    pre_ioctl demo_abi st' NVIDIA_DEVICE_MAJOR 255 0x4A (demo_alloc 8) = Inl Deadlock \<and>
    post_ioctl demo_abi demo_env st' 64 NVIDIA_DEVICE_MAJOR 255 0x29
      (Arg00 \<lparr>os00_hRoot = 1, os00_hObjectParent = 2, os00_hObjectOld = 5, os00_status = 0\<rparr>) = Inl Deadlock"
proof -
  let ?free = "Arg00 \<lparr>os00_hRoot = 1, os00_hObjectParent = 2, os00_hObjectOld = 5, os00_status = 0\<rparr>"
  have lock: "takes_lock_after demo_abi 255 (demo_alloc 600)" "takes_lock_before demo_abi (demo_alloc 8)" "takes_lock_after demo_abi 255 ?free"
    by (simp_all add: takes_lock_after_def takes_lock_before_def demo_alloc_def demo_abi_def NVIDIA_CTL_MINOR_def)
  have laid: "well_laid demo_abi 0x29 ?free" by (simp add: well_laid_def IOC_NR_def demo_abi_def)
  have "\<not> mu demo_dev" by (simp add: demo_dev_def gpu_device_def)
  from malloc_failure_deadlocks [OF demo_abi_ok this demo_laid32 lock(1), of demo_env] obtain st' where st':
    "post_ioctl demo_abi demo_env demo_dev NULL NVIDIA_DEVICE_MAJOR 255 0x4A (demo_alloc 600) = Inr (- ENOMEM, demo_alloc 600, st')"
    "\<forall>cmd' arg'. well_laid demo_abi cmd' arg' \<longrightarrow>
      (\<forall>maj' mnr'. pre_ioctl demo_abi st' maj' mnr' cmd' arg' =
        (if takes_lock_before demo_abi arg' then Inl Deadlock else Inr (0, False, arg', st'))) \<and>
      (\<forall>env' m' mnr'. if takes_lock_after demo_abi mnr' arg' then post_ioctl demo_abi env' st' m' NVIDIA_DEVICE_MAJOR mnr' cmd' arg' = Inl Deadlock
        else \<exists>r. post_ioctl demo_abi env' st' m' NVIDIA_DEVICE_MAJOR mnr' cmd' arg' = Inr (r, arg', st'))"
    by (auto simp: demo_alloc_def)
  show ?thesis
    using st'(1) spec [OF spec [OF st'(2)], of "0x4A" "demo_alloc 8"] spec [OF spec [OF st'(2)], of "0x29" ?free] lock(2,3) laid demo_laid32
    by (intro exI [of _ st']) simp
qed

end
