(* ===== verification/Memory_Query.thy ===== *)
theory Memory_Query
  imports Interleave
begin

text \<open>
  What a process is told about its memory: the query handlers of \<^verbatim>\<open>src/ioctl_hook.c\<close> together with
  the allocation handlers that register the devices.
\<close>

subsection \<open>The answer to a query\<close>

lemma fb_switch_index [simp]: "fbi_index (fb_switch K tot fre info) = fbi_index info"
  by (simp add: fb_switch_def)

text \<open>The object of a living owner, as another process finds it.\<close>

definition owned_object :: "fb_env \<Rightarrow> bool" where
  "owned_object e \<longleftrightarrow> shm_ok (fbe_calls e) \<and> excl_open (fbe_calls e) < 0 \<and> pid (fbe_content e) \<noteq> 0"

lemma query_tracked:
  assumes rel: "ledger_rel st L" and d: "device_of (devs L) handle = d" "d \<noteq> - 1" and own: "owned_object (env (fb_shm_path d))"
    and size: "unat (fbInfoListSize q) \<le> length (fbInfoList q)"
  shows "post_rm_control_fb_get_info K st env handle q = Inr (0, q\<lparr>fbInfoList :=
      map (fb_switch K (drop_bit 10 (total_mem (fbe_content (env (fb_shm_path d)))))
        (if fbe_readlink (env (fb_shm_path d)) = 0 then drop_bit 10 (free_mem (fbe_content (env (fb_shm_path d)))) else - 1))
        (take (unat (fbInfoListSize q)) (fbInfoList q)) @ drop (unat (fbInfoListSize q)) (fbInfoList q)\<rparr>, st)"
proof -
  have wf: "wf_state (st\<lparr>mu := True\<rparr>) (blocks L) (devs L)" and mu: "\<not> mu st" using rel by (simp_all add: ledger_rel_def)
  have "mutex_unlock (st\<lparr>mu := True\<rparr>) = st" using mu by (simp add: mutex_unlock_def)
  moreover have "find_device (st\<lparr>mu := True\<rparr>) handle = Inr d" using find_device_wf [OF wf, of handle] d by simp
  moreover have "get_fb_info env d = Inr (drop_bit 10 (total_mem (fbe_content (env (fb_shm_path d)))),
      if fbe_readlink (env (fb_shm_path d)) = 0 then drop_bit 10 (free_mem (fbe_content (env (fb_shm_path d)))) else - 1)"
    using get_fb_info_ok [of env d] own by (simp add: owned_object_def Let_def)
  ultimately show ?thesis using mu d(2) fb_loop_map [OF size]
    by (simp add: post_rm_control_fb_get_info_def mutex_lock_def)
qed

subsection \<open>Properties of the memory queries\<close>

text \<open>C23: What a limited process is told. After a device object has been allocated, a query for it
  reports the budget of that device, in KiB, for the total memory, for the heap size and also for
  the free heap: the link of the owner's executable is never read as empty, so the free bytes are
  never taken. Every other value, and every value behind the announced length, is the driver's.\<close>

theorem query_reports_budget:
  assumes rel: "ledger_rel st L" and m: "fresh_block st m" and parms: "os21_pAllocParms p = DeviceParms d" "d \<noteq> - 1"
    and own: "owned_object (env (fb_shm_path d))" and link: "fbe_readlink (env (fb_shm_path d)) \<noteq> 0"
    and size: "unat (fbInfoListSize q) \<le> length (fbInfoList q)"
  defines "kib \<equiv> drop_bit 10 (total_mem (fbe_content (env (fb_shm_path d))))"
  shows "\<exists>st' infos. post_device_rm_alloc st m p = Inr (0, st') \<and>
    post_rm_control_fb_get_info K st' env (os21_hObjectNew p) q = Inr (0, q\<lparr>fbInfoList := infos\<rparr>, st') \<and>
    map fbi_index infos = map fbi_index (fbInfoList q) \<and>
    (\<forall>i < length infos. fbi_data (infos ! i) =
      (if 0 < kib \<and> i < unat (fbInfoListSize q) \<and>
         fbi_index (infos ! i) \<in> {FB_INFO_INDEX_TOTAL_RAM_SIZE K, FB_INFO_INDEX_HEAP_SIZE K, FB_INFO_INDEX_HEAP_FREE K}
       then ucast kib else fbi_data (fbInfoList q ! i)))"
proof -
  obtain st' where st': "post_device_rm_alloc st m p = Inr (0, st')"
    "ledger_rel st' (learn \<lparr>rm_object = os21_hObjectNew p, rm_device_id = d\<rparr> L)"
    using post_device_rm_alloc_learns [OF rel m parms(1)] by blast
  have "device_of (devs (learn \<lparr>rm_object = os21_hObjectNew p, rm_device_id = d\<rparr> L)) (os21_hObjectNew p) = d"
    by (simp add: device_of_def learn_def)
  from query_tracked [OF st'(2) this parms(2), of env, OF own size, of K]
  have q: "post_rm_control_fb_get_info K st' env (os21_hObjectNew p) q = Inr (0, q\<lparr>fbInfoList := map (fb_switch K kib (- 1))
      (take (unat (fbInfoListSize q)) (fbInfoList q)) @ drop (unat (fbInfoListSize q)) (fbInfoList q)\<rparr>, st')"
    using link by (simp add: kib_def)
  let ?infos = "map (fb_switch K kib (- 1)) (take (unat (fbInfoListSize q)) (fbInfoList q)) @ drop (unat (fbInfoListSize q)) (fbInfoList q)"
  have "map fbi_index ?infos = map fbi_index (fbInfoList q)"
    by (simp add: comp_def take_map [symmetric] drop_map [symmetric])
  moreover have "fbi_data (?infos ! i) =
      (if 0 < kib \<and> i < unat (fbInfoListSize q) \<and>
         fbi_index (?infos ! i) \<in> {FB_INFO_INDEX_TOTAL_RAM_SIZE K, FB_INFO_INDEX_HEAP_SIZE K, FB_INFO_INDEX_HEAP_FREE K}
       then ucast kib else fbi_data (fbInfoList q ! i))" if "i < length ?infos" for i
    using that size by (cases "i < unat (fbInfoListSize q)") (auto simp: nth_append fb_switch_def)
  ultimately show ?thesis using st'(1) q by (intro exI [of _ st'] exI [of _ ?infos]) blast
qed

theorem query_reports_budget_witness:
  "\<exists>st' infos. post_rm_control_fb_get_info demo_abi st'
      (\<lambda>_. \<lparr>fbe_calls = demo_calls\<lparr>excl_open := - 1, excl_errno := EEXIST, plain_open := 3\<rparr>,
        fbe_content = \<lparr>pid = 7, total_mem = 0x100000, free_mem = 0x400\<rparr>, fbe_readlink = 12\<rparr>) 11
      \<lparr>fbInfoListSize = 1, fbInfoList = [\<lparr>fbi_index = 0x15, fbi_data = 9\<rparr>]\<rparr> =
    Inr (0, \<lparr>fbInfoListSize = 1, fbInfoList = infos\<rparr>, st') \<and> fbi_data (infos ! 0) = 1024"
proof -
  let ?env = "\<lambda>_::string. \<lparr>fbe_calls = demo_calls\<lparr>excl_open := - 1, excl_errno := EEXIST, plain_open := 3\<rparr>,
    fbe_content = \<lparr>pid = 7, total_mem = 0x100000, free_mem = 0x400\<rparr>, fbe_readlink = 12\<rparr>"
  let ?p = "\<lparr>os21_hRoot = 1, os21_hObjectParent = 1, os21_hObjectNew = 11, os21_hClass = 0x80, os21_pAllocParms = DeviceParms 0,
    os21_status = 0\<rparr>"
  have L: "ledger_rel demo_dev (empty_ledger demo_fb)" and m: "fresh_block demo_dev 64"
    using demo_limited demo_env_ok by (simp_all add: limited_def env_ok_def demo_lib_def)
  have "owned_object (?env (fb_shm_path 0))"
    by (simp add: owned_object_def demo_calls_def shm_ok_def shm_opened_def MAP_FAILED_def)
  from query_reports_budget [OF L m, of ?p 0 ?env "\<lparr>fbInfoListSize = 1, fbInfoList = [\<lparr>fbi_index = 0x15, fbi_data = 9\<rparr>]\<rparr>" demo_abi] this
  obtain st' infos where "post_rm_control_fb_get_info demo_abi st' ?env 11 \<lparr>fbInfoListSize = 1, fbInfoList = [\<lparr>fbi_index = 0x15, fbi_data = 9\<rparr>]\<rparr> =
      Inr (0, \<lparr>fbInfoListSize = 1, fbInfoList = infos\<rparr>, st')" "map fbi_index infos = [0x15]" "fbi_data (infos ! 0) = 1024"
    by (force simp: demo_abi_def drop_bit_eq_div)
  then show ?thesis by blast
qed

end
