(* ===== verification/Tokens.thy ===== *)
theory Tokens
  imports Entry
begin

text \<open>
  The token bucket that limits kernel launches: \<open>rate_limit\<close> of \<^verbatim>\<open>src/cuda_hook.c\<close> takes a token
  for each launch and counts it, the thread \<open>token_post\<close> of \<^verbatim>\<open>src/ioctl_hook.c\<close> posts
  \<open>add_per_cycle\<close> tokens per cycle and publishes a moving average of the launches per cycle.
  One cycle of the thread is modelled by its part before and its part after the sleep, so that
  launches and the monitor can act in between. The sleep between them, \<open>wait_duration\<close> on the interval
  \<open>tp_nsec\<close>, is in neither part: it reads the interval only, its result is ignored, and \<open>Util\<close> models it.
\<close>

subsection \<open>The semaphore\<close>

definition SEM_VALUE_MAX :: nat where
  "SEM_VALUE_MAX = 2147483647"

text \<open>\<open>sem_post\<close> fails at the maximal value; the code ignores its result.\<close>

definition sem_post :: "nat \<Rightarrow> nat" where
  "sem_post v = (if v < SEM_VALUE_MAX then Suc v else v)"

subsection \<open>Taking a token\<close>

text \<open>
  The outcomes of \<open>sem_wait\<close> are given as in \<open>sem_wait_loop\<close>. The result is \<open>None\<close> when the
  given outcomes are used up and the call has not returned.
\<close>

definition rate_limit :: "(int \<times> int) list \<Rightarrow> hook_state \<Rightarrow> (int \<times> hook_state) option res" where
  "rate_limit os st =
     (if core_limited st then
        (case sem_wait_loop os of
           None \<Rightarrow> Inr None
         | Some ret \<Rightarrow>
             let st = (if ret = 0 then st\<lparr>tokens := tokens st - 1\<rparr> else st) in
             bindR (deref (attr st)) (\<lambda>ta.
               let st = st\<lparr>attr := Some (ta\<lparr>params := (params ta)\<lparr>launch_times := launch_times (params ta) + 1\<rparr>\<rparr>)\<rparr> in
               Inr (Some (if ret = - 1 then 999 else ret, st))))
      else Inr (Some (0, st)))"

subsection \<open>One cycle of the posting thread\<close>

text \<open>
  The local variables of the thread: the sleep, the number of tokens per cycle (not set until
  the monitor has announced a change), the cycle number and the last samples.
\<close>

record poster =
  tp_nsec :: int
  tp_add :: "int option"
  tp_loop :: int
  tp_samples :: "int list"

definition poster0 :: poster where
  "poster0 = \<lparr>tp_nsec = 0, tp_add = None, tp_loop = 0, tp_samples = replicate LAUNCH_SAMPLES 0\<rparr>"

definition token_before :: "hook_state \<times> poster \<Rightarrow> (hook_state \<times> poster) res" where
  "token_before s =
     (case s of (st, tp) \<Rightarrow>
        bindR (deref (attr st)) (\<lambda>ta.
        bindR (ck (tp_loop tp + 1)) (\<lambda>loop.
          let tp = tp\<lparr>tp_loop := loop\<rparr>;
              (tp, ta) = (if changed ta
                then (tp\<lparr>tp_nsec := tv_nsec (wait_time ta), tp_add := Some (add_per_cycle (params ta))\<rparr>, ta\<lparr>changed := False\<rparr>)
                else (tp, ta));
              ta = ta\<lparr>params := (params ta)\<lparr>launch_times := 0\<rparr>\<rparr>
          in Inr (st\<lparr>attr := Some ta\<rparr>, tp))))"

text \<open>The sum and the number of the positive samples.\<close>

fun sum_samples :: "int list \<Rightarrow> int \<Rightarrow> int \<Rightarrow> (int \<times> int) res" where
  "sum_samples [] acc j = Inr (acc, j)"
| "sum_samples (x # xs) acc j =
     (if 0 < x then bindR (ck (acc + x)) (\<lambda>acc. sum_samples xs acc (j + 1)) else sum_samples xs acc j)"

definition token_after :: "hook_state \<times> poster \<Rightarrow> (hook_state \<times> poster) res" where
  "token_after s =
     (case s of (st, tp) \<Rightarrow>
        bindR (case tp_add tp of None \<Rightarrow> Inl UninitRead | Some n \<Rightarrow> Inr n) (\<lambda>n.
        bindR (deref (attr st)) (\<lambda>ta.
          let st = st\<lparr>tokens := (sem_post ^^ nat n) (tokens st)\<rparr>;
              samples = (tp_samples tp)[nat (tp_loop tp mod int LAUNCH_SAMPLES) := to_int (uint (launch_times (params ta)))]
          in bindR (sum_samples samples 0 0) (\<lambda>(sum_launch, j).
             let sum_launch = sum_launch div (j + 1); idx = launch_idx (params ta) in
             if idx < 0 \<and> odd idx then Inl BadAccess
             else let p = (params ta)\<lparr>avg_launchs := (avg_launchs (params ta))[nat (idx mod 2) := if sum_launch \<noteq> 0 then sum_launch else 1],
                        launch_idx := to_int (idx + 1)\<rparr>
               in Inr (st\<lparr>attr := Some (ta\<lparr>params := p\<rparr>)\<rparr>, tp\<lparr>tp_samples := samples\<rparr>)))))"

subsection \<open>The contract of a token bucket\<close>

text \<open>
  Runs of a labelled step relation: the labels of the steps that have one, in order.
\<close>

inductive runs :: "('s \<Rightarrow> 'e option \<Rightarrow> 's \<Rightarrow> bool) \<Rightarrow> 's \<Rightarrow> 'e list \<Rightarrow> 's \<Rightarrow> bool" for stp where
  run_start: "runs stp s [] s"
| run_event: "runs stp s es s' \<Longrightarrow> stp s' (Some e) s'' \<Longrightarrow> runs stp s (es @ [e]) s''"
| run_silent: "runs stp s es s' \<Longrightarrow> stp s' None s'' \<Longrightarrow> runs stp s es s''"

datatype bucket_event = Take | Put nat

definition takes :: "bucket_event list \<Rightarrow> nat" where
  "takes es = length (filter (\<lambda>e. e = Take) es)"

definition puts :: "bucket_event list \<Rightarrow> nat" where
  "puts es = sum_list (map (\<lambda>e. case e of Take \<Rightarrow> 0 | Put n \<Rightarrow> n) es)"

text \<open>
  A bucket has a level; taking needs a positive level and lowers it by one, putting raises it
  by at most the given number, and nothing else changes it. In every run the number of takes
  is bounded by the initial level and what was put.
\<close>

locale token_bucket =
  fixes level :: "'s \<Rightarrow> nat"
    and stp :: "'s \<Rightarrow> bucket_event option \<Rightarrow> 's \<Rightarrow> bool"
  assumes take_level: "stp s (Some Take) s' \<Longrightarrow> 0 < level s \<and> level s' = level s - 1"
    and put_level: "stp s (Some (Put n)) s' \<Longrightarrow> level s' \<le> level s + n"
    and other_level: "stp s None s' \<Longrightarrow> level s' = level s"
begin

lemma event_level:
  assumes "stp s (Some e) s'"
  shows "takes [e] + level s' \<le> level s + puts [e]"
  using assms take_level [of s s'] put_level [of s _ s']
  by (cases e) (auto simp: takes_def puts_def)

lemma takes_bounded:
  assumes "runs stp s es s'"
  shows "takes es + level s' \<le> level s + puts es"
  using assms
proof (induction rule: runs.induct)
  case (run_event s es s' e s'')
  then show ?case using event_level [of s' e s''] by (simp add: takes_def puts_def)
next
  case (run_silent s es s' s'')
  then show ?case using other_level [of s' s''] by simp
qed (simp add: takes_def puts_def)

end

subsection \<open>The bucket of the library\<close>

text \<open>
  What can happen to the tokens of a process: a launch whose \<open>sem_wait\<close> succeeds, which needs a
  token; a launch whose wait fails; the two halves of a cycle of the thread; and any write of
  the monitor to the shared object.
\<close>

inductive token_step :: "hook_state \<times> poster \<Rightarrow> bucket_event option \<Rightarrow> hook_state \<times> poster \<Rightarrow> bool" where
  launch: "core_limited st \<Longrightarrow> sem_wait_loop os = Some 0 \<Longrightarrow> 0 < tokens st \<Longrightarrow> rate_limit os st = Inr (Some (ret, st')) \<Longrightarrow>
    token_step (st, tp) (Some Take) (st', tp)"
| failed: "core_limited st \<Longrightarrow> sem_wait_loop os = Some r \<Longrightarrow> r \<noteq> 0 \<Longrightarrow> rate_limit os st = Inr (Some (ret, st')) \<Longrightarrow>
    token_step (st, tp) None (st', tp)"
| before: "token_before (st, tp) = Inr s' \<Longrightarrow> token_step (st, tp) None s'"
| after: "token_after (st, tp) = Inr s' \<Longrightarrow> tp_add tp = Some n \<Longrightarrow> token_step (st, tp) (Some (Put (nat n))) s'"
| monitor: "token_step (st, tp) None (st\<lparr>attr := Some ta\<rparr>, tp)"

inductive_cases token_step_take: "token_step s (Some Take) s'"
inductive_cases token_step_put: "token_step s (Some (Put n)) s'"
inductive_cases token_step_silent: "token_step s None s'"

lemma sem_posts_le: "(sem_post ^^ n) v \<le> v + n"
  by (induction n) (auto simp: sem_post_def)

lemma sem_posts_exact: "v + n \<le> SEM_VALUE_MAX \<Longrightarrow> (sem_post ^^ n) v = v + n"
  by (induction n) (auto simp: sem_post_def)

lemma rate_limit_tokens:
  assumes "rate_limit os st = Inr (Some (ret, st'))" "core_limited st" "sem_wait_loop os = Some r"
  shows "tokens st' = (if r = 0 then tokens st - 1 else tokens st)"
  using assms by (auto simp: rate_limit_def Let_def bindR_eq_Inr)

lemma token_before_tokens: "token_before (st, tp) = Inr (st', tp') \<Longrightarrow> tokens st' = tokens st"
  by (auto simp: token_before_def Let_def bindR_eq_Inr split: if_splits)

lemma token_after_tokens:
  "token_after (st, tp) = Inr (st', tp') \<Longrightarrow> tp_add tp = Some n \<Longrightarrow> tokens st' = (sem_post ^^ nat n) (tokens st)"
  by (auto simp: token_after_def Let_def bindR_eq_Inr split: if_splits prod.splits)

interpretation tok: token_bucket "\<lambda>s. tokens (fst s)" token_step
proof
  fix s s' :: "hook_state \<times> poster"
  show "0 < tokens (fst s) \<and> tokens (fst s') = tokens (fst s) - 1" if "token_step s (Some Take) s'"
    using that by (elim token_step_take) (auto dest: rate_limit_tokens)
  show "tokens (fst s') \<le> tokens (fst s) + n" if "token_step s (Some (Put n)) s'" for n
    using that by (elim token_step_put) (use token_after_tokens sem_posts_le in \<open>cases s'; fastforce\<close>)
  show "tokens (fst s') = tokens (fst s)" if "token_step s None s'"
    using that by (elim token_step_silent) (auto dest: rate_limit_tokens simp: token_before_tokens, cases s', auto dest: token_before_tokens)
qed

subsection \<open>The published average\<close>

definition positives :: "int list \<Rightarrow> int" where
  "positives xs = int (length (filter (\<lambda>x. 0 < x) xs))"

lemma sum_samples_ok:
  assumes "\<forall>x \<in> set xs. 0 \<le> x" "0 \<le> acc" "acc + sum_list xs < 2 ^ 31"
  shows "sum_samples xs acc j = Inr (acc + sum_list xs, j + positives xs)"
  using assms
proof (induction xs arbitrary: acc j)
  case (Cons x xs)
  have "0 \<le> sum_list xs" using Cons.prems(1) by (simp add: sum_list_nonneg)
  then have "int32_range (acc + x)" using Cons.prems by (simp add: int32_range_def)
  then show ?case using Cons by (cases "0 < x") (simp_all add: positives_def algebra_simps)
qed (simp add: positives_def)

lemma to_int_small: "0 \<le> i \<Longrightarrow> i < 2 ^ 31 \<Longrightarrow> to_int i = i"
  by (simp add: to_int_def signed_take_bit_int_eq_self)

lemma token_after_eq:
  assumes a: "attr st = Some ta" and n: "tp_add tp = Some (int n)"
    and idx: "0 \<le> launch_idx (params ta)" "launch_idx (params ta) < 2 ^ 31 - 1"
    and times: "uint (launch_times (params ta)) < 2 ^ 27"
    and samples: "length (tp_samples tp) = LAUNCH_SAMPLES" "\<forall>x \<in> set (tp_samples tp). 0 \<le> x \<and> x < 2 ^ 27"
  defines "xs \<equiv> (tp_samples tp)[nat (tp_loop tp mod int LAUNCH_SAMPLES) := uint (launch_times (params ta))]"
  shows "token_after (st, tp) = Inr (st\<lparr>tokens := (sem_post ^^ n) (tokens st), attr := Some (ta\<lparr>params := (params ta)\<lparr>
      avg_launchs := (avg_launchs (params ta))[nat (launch_idx (params ta) mod 2) := max 1 (sum_list xs div (positives xs + 1))],
      launch_idx := launch_idx (params ta) + 1\<rparr>\<rparr>)\<rparr>, tp\<lparr>tp_samples := xs\<rparr>)"
proof -
  have xs: "\<forall>x \<in> set xs. 0 \<le> x \<and> x < 2 ^ 27"
    using samples(2) times unfolding xs_def by (auto dest!: set_update_subset_insert [THEN subsetD])
  have "sum_list xs \<le> sum_list (map (\<lambda>_. 2 ^ 27) xs)"
    using xs by (metis less_imp_le list.map_ident sum_list_mono)
  also have "\<dots> = 10 * 2 ^ 27" using samples(1) by (simp add: xs_def LAUNCH_SAMPLES_def sum_list_replicate map_replicate_const)
  finally have "sum_samples xs 0 0 = Inr (sum_list xs, positives xs)"
    using sum_samples_ok [of xs 0 0] xs by simp
  moreover have "to_int (uint (launch_times (params ta))) = uint (launch_times (params ta))"
    using times by (intro to_int_small) simp_all
  moreover have "to_int (launch_idx (params ta) + 1) = launch_idx (params ta) + 1"
    using idx by (intro to_int_small) simp_all
  moreover have "(if sum_list xs div (positives xs + 1) \<noteq> 0 then sum_list xs div (positives xs + 1) else 1) =
      max 1 (sum_list xs div (positives xs + 1))"
  proof -
    have "0 \<le> sum_list xs" using xs by (intro sum_list_nonneg) auto
    then have "0 \<le> sum_list xs div (positives xs + 1)" by (simp add: positives_def pos_imp_zdiv_nonneg_iff)
    then show ?thesis by auto
  qed
  ultimately show ?thesis
    using a n idx(1) by (simp add: token_after_def Let_def flip: xs_def)
qed

subsection \<open>Properties of the token bucket\<close>

text \<open>C16: Launches are limited: in every run of launches, cycles of the posting thread and writes of
  the monitor, in any order, the number of launches that got through is at most the tokens the
  process started with and those posted since.\<close>

theorem launches_bounded:
  assumes "runs token_step (st, tp) es (st', tp')"
  shows "takes es + tokens st' \<le> tokens st + puts es"
  using tok.takes_bounded [OF assms] by simp

definition demo_limited_dev :: hook_state where
  "demo_limited_dev = (gpu_device 16 32)\<lparr>core_limited := True, tokens := 1, attr := Some demo_attr\<rparr>"

theorem launches_bounded_witness:
  "\<exists>st'. runs token_step (demo_limited_dev, poster0) [Take] (st', poster0) \<and> takes [Take] + tokens st' \<le> 1"
proof -
  obtain ret st' where "rate_limit [(- 1, EINTR), (0, 0)] demo_limited_dev = Inr (Some (ret, st'))"
    by (simp add: rate_limit_def demo_limited_dev_def)
  then have "token_step (demo_limited_dev, poster0) (Some Take) (st', poster0)"
    by (intro token_step.launch [where os = "[(- 1, EINTR), (0, 0)]"]) (simp_all add: demo_limited_dev_def)
  then have run: "runs token_step (demo_limited_dev, poster0) [Take] (st', poster0)"
    using runs.run_event [OF runs.run_start] by force
  with launches_bounded [OF run] show ?thesis by (auto simp: demo_limited_dev_def puts_def)
qed

text \<open>C17: A cycle of the posting thread, for samples and tokens in range: it posts exactly
  \<open>add_per_cycle\<close> tokens, stores the sample of this cycle, publishes in the slot of the current
  index the sum of the samples divided by one more than the number of positive ones, at least
  1, and advances the index.\<close>

theorem token_cycle:
  assumes a: "attr st = Some ta" and n: "tp_add tp = Some (int n)" and toks: "tokens st + n \<le> SEM_VALUE_MAX"
    and idx: "0 \<le> launch_idx (params ta)" "launch_idx (params ta) < 2 ^ 31 - 1"
    and times: "uint (launch_times (params ta)) < 2 ^ 27"
    and samples: "length (tp_samples tp) = LAUNCH_SAMPLES" "\<forall>x \<in> set (tp_samples tp). 0 \<le> x \<and> x < 2 ^ 27"
  defines "xs \<equiv> (tp_samples tp)[nat (tp_loop tp mod int LAUNCH_SAMPLES) := uint (launch_times (params ta))]"
  shows "token_after (st, tp) = Inr (st\<lparr>tokens := tokens st + n, attr := Some (ta\<lparr>params := (params ta)\<lparr>
      avg_launchs := (avg_launchs (params ta))[nat (launch_idx (params ta) mod 2) := max 1 (sum_list xs div (positives xs + 1))],
      launch_idx := launch_idx (params ta) + 1\<rparr>\<rparr>)\<rparr>, tp\<lparr>tp_samples := xs\<rparr>)"
  using token_after_eq [OF a n idx times samples] sem_posts_exact [OF toks] by (simp add: xs_def)

theorem token_cycle_witness:
  "\<exists>st' tp' ta. token_after (demo_limited_dev, poster0\<lparr>tp_add := Some 3\<rparr>) = Inr (st', tp') \<and>
    tokens st' = 4 \<and> attr st' = Some ta \<and> avg_launchs (params ta) = [1, 0]"
  using token_cycle [of demo_limited_dev demo_attr "poster0\<lparr>tp_add := Some 3\<rparr>" 3] list_update_id [of "replicate 10 (0::int)" 0]
  by (simp add: sum_list_replicate demo_limited_dev_def demo_attr_def zero_attr_def poster0_def SEM_VALUE_MAX_def LAUNCH_SAMPLES_def positives_def)

text \<open>A posting thread that starts when no change is announced, for instance because another
  process of the container has already taken the announcement, reads a variable that was never
  set in its first cycle.\<close>

lemma first_cycle_uninitialised:
  assumes "attr st = Some ta" "\<not> changed ta"
  shows "\<exists>s. token_before (st, poster0) = Inr s \<and> token_after s = Inl UninitRead"
  using assms by (simp add: token_before_def token_after_def poster0_def ck_def int32_range_def)

lemma first_cycle_uninitialised_witness:
  "\<exists>s. token_before (demo_limited_dev, poster0) = Inr s \<and> token_after s = Inl UninitRead"
  by (rule first_cycle_uninitialised [of _ demo_attr]) (simp_all add: demo_limited_dev_def demo_attr_def zero_attr_def)

end
