(* ===== verification/Cuda_Hook.thy ===== *)
theory Cuda_Hook
  imports Tokens Dlfcn
begin

text \<open>
  The hooks of the CUDA driver API (\<^verbatim>\<open>src/cuda_hook.c\<close>, \<^verbatim>\<open>include/cuda_entry.h\<close>): the table of
  hooked functions, the two functions that resolve names, and the four launch functions. A
  real function is called through its address; what it returns is the parameter \<open>call\<close>, or
  \<open>resolve_call\<close> for the functions that also store a pointer.
\<close>

subsection \<open>The table\<close>

datatype entry_enum_t =
    ENTRY_cuGetProcAddress
  | ENTRY_cuGetProcAddress_v2
  | ENTRY_cuLaunchKernel
  | ENTRY_cuLaunchKernelEx
  | ENTRY_cuLaunchKernel_ptsz
  | ENTRY_cuLaunchKernelEx_ptsz

text \<open>The value of an enumerator, and the function it stands for.\<close>

fun enum_val :: "entry_enum_t \<Rightarrow> nat" where
  "enum_val ENTRY_cuGetProcAddress = 0"
| "enum_val ENTRY_cuGetProcAddress_v2 = 1"
| "enum_val ENTRY_cuLaunchKernel = 2"
| "enum_val ENTRY_cuLaunchKernelEx = 3"
| "enum_val ENTRY_cuLaunchKernel_ptsz = 4"
| "enum_val ENTRY_cuLaunchKernelEx_ptsz = 5"

definition ENTRY_END :: nat where
  "ENTRY_END = 6"

fun enum_sym :: "entry_enum_t \<Rightarrow> string" where
  "enum_sym ENTRY_cuGetProcAddress = ''cuGetProcAddress''"
| "enum_sym ENTRY_cuGetProcAddress_v2 = ''cuGetProcAddress_v2''"
| "enum_sym ENTRY_cuLaunchKernel = ''cuLaunchKernel''"
| "enum_sym ENTRY_cuLaunchKernelEx = ''cuLaunchKernelEx''"
| "enum_sym ENTRY_cuLaunchKernel_ptsz = ''cuLaunchKernel_ptsz''"
| "enum_sym ENTRY_cuLaunchKernelEx_ptsz = ''cuLaunchKernelEx_ptsz''"

text \<open>\<open>hook\<close> gives the address of the hook of a function.\<close>

definition HOOK_FUNC :: "(string \<Rightarrow> addr) \<Rightarrow> string \<Rightarrow> entry_t" where
  "HOOK_FUNC hook name = \<lparr>real_pfn = NULL, hook_pfn = hook name, sym_name = name, ent_flags = 0, ent_cudaVersion = 0\<rparr>"

definition cuda_hook_funcs_data :: "(string \<Rightarrow> addr) \<Rightarrow> entry_t list" where
  "cuda_hook_funcs_data hook =
     [HOOK_FUNC hook ''cuGetProcAddress'', HOOK_FUNC hook ''cuGetProcAddress_v2'',
      HOOK_FUNC hook ''cuLaunchKernel'', HOOK_FUNC hook ''cuLaunchKernelEx'',
      HOOK_FUNC hook ''cuLaunchKernel_ptsz'', HOOK_FUNC hook ''cuLaunchKernelEx_ptsz'']"

definition get_hook_size :: nat where
  "get_hook_size = length (cuda_hook_funcs_data (\<lambda>_. NULL))"

definition CUDA_FIND_ENTRY :: "entry_t list \<Rightarrow> entry_enum_t \<Rightarrow> addr" where
  "CUDA_FIND_ENTRY tab e = real_pfn (tab ! enum_val e)"

definition CUDA_ENTRY_CALL :: "entry_t list \<Rightarrow> entry_enum_t \<Rightarrow> (addr \<Rightarrow> 'r) \<Rightarrow> 'r res" where
  "CUDA_ENTRY_CALL tab e f = (let entry = CUDA_FIND_ENTRY tab e in BUG_ON (entry = NULL) (Inr (f entry)))"

subsection \<open>Arguments\<close>

record CUlaunchConfig =
  gridDimX :: u32
  gridDimY :: u32
  gridDimZ :: u32
  blockDimX :: u32
  blockDimY :: u32
  blockDimZ :: u32

datatype cuda_args =
    LaunchKernel addr u32 u32 u32 u32 u32 u32 u32 addr addr addr
  | LaunchKernelEx CUlaunchConfig addr addr addr
  | GetProcAddress string int u64
  | GetProcAddress_v2 string int u64 addr

subsection \<open>Resolving names\<close>

text \<open>The common part of the two functions: what they do with the pointer the real one stored.\<close>

definition hook_resolved :: "entry_t list \<Rightarrow> string \<Rightarrow> addr \<Rightarrow> (addr \<times> entry_t list) res" where
  "hook_resolved tab symbol pfn =
     bindR (find_entry tab get_hook_size symbol) (\<lambda>e.
       case e of
         None \<Rightarrow> Inr (pfn, tab)
       | Some i \<Rightarrow>
           let tab = (if real_pfn (tab ! i) = NULL then tab[i := (tab ! i)\<lparr>real_pfn := pfn\<rparr>] else tab) in
           Inr (if hook_pfn (tab ! i) \<noteq> NULL then hook_pfn (tab ! i) else pfn, tab))"

definition hook_cuGetProcAddress ::
  "(addr \<Rightarrow> cuda_args \<Rightarrow> int \<times> addr) \<Rightarrow> entry_t list \<Rightarrow> string \<Rightarrow> int \<Rightarrow> u64 \<Rightarrow> (int \<times> addr \<times> entry_t list) res" where
  "hook_cuGetProcAddress resolve_call tab symbol cudaVersion flags =
     bindR (CUDA_ENTRY_CALL tab ENTRY_cuGetProcAddress (\<lambda>f. resolve_call f (GetProcAddress symbol cudaVersion flags))) (\<lambda>(ret, pfn).
       if ret \<noteq> 0 then Inr (ret, pfn, tab)
       else bindR (hook_resolved tab symbol pfn) (\<lambda>(pfn, tab). Inr (ret, pfn, tab)))"

definition hook_cuGetProcAddress_v2 ::
  "(addr \<Rightarrow> cuda_args \<Rightarrow> int \<times> addr) \<Rightarrow> entry_t list \<Rightarrow> string \<Rightarrow> int \<Rightarrow> u64 \<Rightarrow> addr \<Rightarrow> (int \<times> addr \<times> entry_t list) res" where
  "hook_cuGetProcAddress_v2 resolve_call tab symbol cudaVersion flags symbolStatus =
     bindR (CUDA_ENTRY_CALL tab ENTRY_cuGetProcAddress_v2
         (\<lambda>f. resolve_call f (GetProcAddress_v2 symbol cudaVersion flags symbolStatus))) (\<lambda>(ret, pfn).
       if ret \<noteq> 0 then Inr (ret, pfn, tab)
       else bindR (hook_resolved tab symbol pfn) (\<lambda>(pfn, tab). Inr (ret, pfn, tab)))"

subsection \<open>Launching kernels\<close>

text \<open>
  Each hook takes a token and then calls the real function with the arguments it got. The
  result is \<open>None\<close> while the wait for a token has not returned.
\<close>

definition hook_launch ::
  "entry_enum_t \<Rightarrow> (addr \<Rightarrow> cuda_args \<Rightarrow> int) \<Rightarrow> entry_t list \<Rightarrow> (int \<times> int) list \<Rightarrow> hook_state \<Rightarrow> cuda_args \<Rightarrow>
     (int \<times> hook_state) option res" where
  "hook_launch e call tab os st args =
     bindR (rate_limit os st) (\<lambda>r.
       case r of
         None \<Rightarrow> Inr None
       | Some (ret, st) \<Rightarrow>
           if ret \<noteq> 0 then Inr (Some (ret, st))
           else bindR (CUDA_ENTRY_CALL tab e (\<lambda>f. call f args)) (\<lambda>ret. Inr (Some (ret, st))))"

definition hook_cuLaunchKernel where
  "hook_cuLaunchKernel call tab os st f gx gy gz bx by bz sharedMemBytes hStream kernelParams extra =
     hook_launch ENTRY_cuLaunchKernel call tab os st (LaunchKernel f gx gy gz bx by bz sharedMemBytes hStream kernelParams extra)"

definition hook_cuLaunchKernel_ptsz where
  "hook_cuLaunchKernel_ptsz call tab os st f gx gy gz bx by bz sharedMemBytes hStream kernelParams extra =
     hook_launch ENTRY_cuLaunchKernel_ptsz call tab os st (LaunchKernel f gx gy gz bx by bz sharedMemBytes hStream kernelParams extra)"

definition hook_cuLaunchKernelEx where
  "hook_cuLaunchKernelEx call tab os st config f kernelParams extra =
     hook_launch ENTRY_cuLaunchKernelEx call tab os st (LaunchKernelEx config f kernelParams extra)"

definition hook_cuLaunchKernelEx_ptsz where
  "hook_cuLaunchKernelEx_ptsz call tab os st config f kernelParams extra =
     hook_launch ENTRY_cuLaunchKernelEx_ptsz call tab os st (LaunchKernelEx config f kernelParams extra)"

subsection \<open>The table never loses its hooks\<close>

definition hook_names :: "string list" where
  "hook_names = map sym_name (cuda_hook_funcs_data (\<lambda>_. NULL))"

text \<open>
  The columns of names and hooks are those of the sources, and no recorded real function is one
  of the hooks.
\<close>

definition table_ok :: "(string \<Rightarrow> addr) \<Rightarrow> entry_t list \<Rightarrow> bool" where
  "table_ok hook tab \<longleftrightarrow> map sym_name tab = hook_names \<and> map hook_pfn tab = map hook hook_names \<and>
     real_pfn ` set tab \<inter> hook ` set hook_names \<subseteq> {NULL}"

lemma table_ok_initial: "table_ok hook (cuda_hook_funcs_data hook)"
  by (simp add: table_ok_def hook_names_def cuda_hook_funcs_data_def HOOK_FUNC_def)

lemma table_ok_length: "table_ok hook tab \<Longrightarrow> length tab = get_hook_size"
  unfolding table_ok_def hook_names_def get_hook_size_def by (metis length_map)

lemma table_ok_update:
  assumes "table_ok hook tab" "i < length tab" "a = NULL \<or> a \<notin> hook ` set hook_names"
  shows "table_ok hook (tab[i := (tab ! i)\<lparr>real_pfn := a\<rparr>])"
proof -
  have cols: "map f (tab[i := (tab ! i)\<lparr>real_pfn := a\<rparr>]) = map f tab" if "f ((tab ! i)\<lparr>real_pfn := a\<rparr>) = f (tab ! i)" for f :: "entry_t \<Rightarrow> 'x"
    using that assms(2) by (metis list_update_id map_update nth_map)
  have "real_pfn ` set (tab[i := (tab ! i)\<lparr>real_pfn := a\<rparr>]) \<subseteq> insert a (real_pfn ` set tab)"
    using set_update_subset_insert [of tab i "(tab ! i)\<lparr>real_pfn := a\<rparr>"] by auto
  then show ?thesis using assms cols [of sym_name] cols [of hook_pfn] by (auto simp: table_ok_def)
qed

text \<open>
  What changes the table: a lookup by name through \<open>dlsym\<close> or through either of the two hooked
  functions. The real functions behind them never answer with the address of a hook, which is
  private to the library.
\<close>

inductive table_step :: "(string \<Rightarrow> addr) \<Rightarrow> entry_t list \<Rightarrow> entry_t list \<Rightarrow> bool" for hook where
  by_dlsym: "dl_dlsym (dlfcn s) \<noteq> NULL \<Longrightarrow> handle \<noteq> RTLD_NEXT \<Longrightarrow> api_dlsym api handle symbol \<notin> hook ` set hook_names \<Longrightarrow>
    dlsym api ini s caller handle symbol = Inr (a, s') \<Longrightarrow> table_step hook (table s) (table s')"
| by_get_proc: "(\<forall>f args. snd (resolve_call f args) \<notin> hook ` set hook_names) \<Longrightarrow>
    hook_cuGetProcAddress resolve_call tab symbol v flags = Inr (ret, pfn, tab') \<Longrightarrow> table_step hook tab tab'"
| by_get_proc_v2: "(\<forall>f args. snd (resolve_call f args) \<notin> hook ` set hook_names) \<Longrightarrow>
    hook_cuGetProcAddress_v2 resolve_call tab symbol v flags status = Inr (ret, pfn, tab') \<Longrightarrow> table_step hook tab tab'"

lemma hook_resolved_table:
  assumes "table_ok hook tab" "pfn \<notin> hook ` set hook_names" "hook_resolved tab symbol pfn = Inr (a, tab')"
  shows "table_ok hook tab'"
proof -
  have size: "get_hook_size = length tab" using table_ok_length [OF assms(1)] by simp
  obtain r where r: "find_entry tab (length tab) symbol = Inr r" using find_entry_total by blast
  show ?thesis
  proof (cases r)
    case None
    then show ?thesis using assms r by (simp add: hook_resolved_def size)
  next
    case (Some i)
    then have "i < length tab" using find_entry_Some(1) r by blast
    with Some show ?thesis
      using assms r table_ok_update [OF assms(1), of i pfn] by (auto simp: hook_resolved_def size Let_def split: if_splits)
  qed
qed

lemma dlsym_table:
  assumes s: "dl_dlsym (dlfcn s) \<noteq> NULL" "handle \<noteq> RTLD_NEXT" and ok: "table_ok hook (table s)"
    and real: "api_dlsym api handle symbol \<notin> hook ` set hook_names" and call: "dlsym api ini s caller handle symbol = Inr (a, s')"
  shows "table_ok hook (table s')"
proof -
  obtain r where r: "find_entry (table s) (length (table s)) symbol = Inr r" using find_entry_total by blast
  show ?thesis
  proof (cases r)
    case None
    then show ?thesis using s ok call r by (simp add: dlsym_def BUG_ON_def Let_def)
  next
    case (Some i)
    then have "i < length (table s)" using find_entry_Some(1) r by blast
    with Some show ?thesis
      using s call r ok table_ok_update [OF ok, of i "api_dlsym api handle symbol"] real
      by (auto simp: dlsym_def BUG_ON_def Let_def split: if_splits)
  qed
qed

lemma table_step_ok:
  assumes "table_step hook tab tab'" "table_ok hook tab"
  shows "table_ok hook tab'"
  using assms
proof (induction rule: table_step.induct)
  case (by_get_proc resolve_call tab symbol v flags ret pfn tab')
  then show ?case
    using hook_resolved_table [OF by_get_proc.prems]
    by (auto simp: hook_cuGetProcAddress_def CUDA_ENTRY_CALL_def BUG_ON_def Let_def bindR_eq_Inr split: if_splits prod.splits)
      (metis snd_conv)+
next
  case (by_get_proc_v2 resolve_call tab symbol v flags status ret pfn tab')
  then show ?case
    using hook_resolved_table [OF by_get_proc_v2.prems]
    by (auto simp: hook_cuGetProcAddress_v2_def CUDA_ENTRY_CALL_def BUG_ON_def Let_def bindR_eq_Inr split: if_splits prod.splits)
      (metis snd_conv)+
qed (rule dlsym_table)

lemma table_reach_ok: "(table_step hook)\<^sup>*\<^sup>* tab tab' \<Longrightarrow> table_ok hook tab \<Longrightarrow> table_ok hook tab'"
  by (induction rule: rtranclp_induct) (auto intro: table_step_ok)

lemma enum_in_table: "enum_val e < get_hook_size" "hook_names ! enum_val e = enum_sym e"
  by (cases e; simp add: get_hook_size_def hook_names_def cuda_hook_funcs_data_def HOOK_FUNC_def)+

subsection \<open>Properties of the hooks\<close>

text \<open>The order of the enumeration is that of the table: every enumerator selects the entry of
  its function, with that function's hook, the table has as many entries as the enumeration, and
  a lookup by name gives the same entry.\<close>

lemma enum_order_consistent:
  "get_hook_size = ENTRY_END \<and>
   sym_name (cuda_hook_funcs_data hook ! enum_val e) = enum_sym e \<and>
   hook_pfn (cuda_hook_funcs_data hook ! enum_val e) = hook (enum_sym e) \<and>
   find_entry (cuda_hook_funcs_data hook) get_hook_size (enum_sym e) = Inr (Some (enum_val e))"
proof -
  let ?t = "cuda_hook_funcs_data hook"
  have len: "get_hook_size = length ?t" "get_hook_size = ENTRY_END"
    by (simp_all add: get_hook_size_def cuda_hook_funcs_data_def ENTRY_END_def)
  have sel: "sym_name (?t ! enum_val e) = enum_sym e" "hook_pfn (?t ! enum_val e) = hook (enum_sym e)"
    by (cases e; simp add: cuda_hook_funcs_data_def HOOK_FUNC_def)+
  have "distinct (map sym_name ?t)" by (simp add: cuda_hook_funcs_data_def HOOK_FUNC_def)
  from find_entry_distinct [OF this, of "enum_val e"] enum_in_table(1) [of e] sel len show ?thesis by simp
qed

text \<open>C29: However names are resolved, through \<open>dlsym\<close> and both hooked functions in any order, the
  table keeps its names and hooks, and the address a hook calls as the real function is never
  one of the hooks, so a launch never ends in the hook again.\<close>

theorem hooks_never_call_themselves:
  assumes "(table_step hook)\<^sup>*\<^sup>* (cuda_hook_funcs_data hook) tab"
  shows "map sym_name tab = hook_names \<and> map hook_pfn tab = map hook hook_names \<and>
    (CUDA_FIND_ENTRY tab e = NULL \<or> CUDA_FIND_ENTRY tab e \<notin> hook ` set hook_names)"
proof -
  have ok: "table_ok hook tab" using table_reach_ok [OF assms table_ok_initial] .
  have "tab ! enum_val e \<in> set tab" using enum_in_table(1) [of e] table_ok_length [OF ok] by simp
  with ok show ?thesis by (auto simp: table_ok_def CUDA_FIND_ENTRY_def)
qed

theorem hooks_never_call_themselves_witness:
  "\<exists>tab. (table_step (\<lambda>name. of_nat (100 + length name)))\<^sup>*\<^sup>* (cuda_hook_funcs_data (\<lambda>name. of_nat (100 + length name))) tab \<and>
    CUDA_FIND_ENTRY tab ENTRY_cuLaunchKernel = 7 \<and> CUDA_FIND_ENTRY tab ENTRY_cuLaunchKernel \<notin> (\<lambda>name. of_nat (100 + length name)) ` set hook_names"
proof -
  let ?hook = "\<lambda>name::string. of_nat (100 + length name) :: addr"
  let ?s = "demo_lib\<lparr>table := cuda_hook_funcs_data ?hook\<rparr>" and ?api = "demo_api\<lparr>api_dlsym := \<lambda>_ _. 7\<rparr>"
  let ?tab = "(cuda_hook_funcs_data ?hook)[2 := (cuda_hook_funcs_data ?hook ! 2)\<lparr>real_pfn := 7\<rparr>]"
  have find: "find_entry (cuda_hook_funcs_data ?hook) (length (cuda_hook_funcs_data ?hook)) ''cuLaunchKernel'' = Inr (Some 2)"
    using find_entry_distinct [of "cuda_hook_funcs_data ?hook" 2] by (simp add: cuda_hook_funcs_data_def HOOK_FUNC_def)
  have "\<exists>a. dlsym ?api Inr ?s 0 3 ''cuLaunchKernel'' = Inr (a, ?s\<lparr>table := ?tab\<rparr>)"
    using find by (simp add: dlsym_def BUG_ON_def demo_lib_def RTLD_NEXT_def Let_def)
  then obtain a where call: "dlsym ?api Inr ?s 0 3 ''cuLaunchKernel'' = Inr (a, ?s\<lparr>table := ?tab\<rparr>)" by blast
  have "table_step ?hook (table ?s) (table (?s\<lparr>table := ?tab\<rparr>))"
    by (rule table_step.by_dlsym [OF _ _ _ call])
      (simp_all add: demo_lib_def RTLD_NEXT_def hook_names_def cuda_hook_funcs_data_def HOOK_FUNC_def)
  then have reach: "(table_step ?hook)\<^sup>*\<^sup>* (cuda_hook_funcs_data ?hook) ?tab" by simp
  have seven: "CUDA_FIND_ENTRY ?tab ENTRY_cuLaunchKernel = 7" by (simp add: CUDA_FIND_ENTRY_def cuda_hook_funcs_data_def)
  with hooks_never_call_themselves [OF reach, of ENTRY_cuLaunchKernel] have
    "CUDA_FIND_ENTRY ?tab ENTRY_cuLaunchKernel \<notin> ?hook ` set hook_names" by simp
  with reach seven show ?thesis by blast
qed

text \<open>
  What a launch hook does once its wait for a token has ended with \<open>ret\<close>, in a process with the
  shared record \<open>ta\<close>: the state with the token taken and the launch counted, and the outcome.
\<close>

definition after_wait :: "int \<Rightarrow> token_attr_t \<Rightarrow> hook_state \<Rightarrow> hook_state" where
  "after_wait ret ta st = st\<lparr>tokens := if ret = 0 then tokens st - 1 else tokens st,
     attr := Some (ta\<lparr>params := (params ta)\<lparr>launch_times := launch_times (params ta) + 1\<rparr>\<rparr>)\<rparr>"

definition launch_outcome ::
  "int \<Rightarrow> token_attr_t \<Rightarrow> (addr \<Rightarrow> cuda_args \<Rightarrow> int) \<Rightarrow> addr \<Rightarrow> hook_state \<Rightarrow> cuda_args \<Rightarrow> (int \<times> hook_state) option res" where
  "launch_outcome ret ta call fn st args =
     (if ret \<noteq> 0 then Inr (Some (if ret = - 1 then 999 else ret, after_wait ret ta st))
      else if fn = NULL then Inl (ProcessExit (- 1))
      else Inr (Some (call fn args, after_wait ret ta st)))"

lemma hook_launch_outcome:
  assumes st: "core_limited st" "attr st = Some ta" and os: "os = replicate n (- 1, EINTR) @ [(ret, err)]" "err \<noteq> EINTR"
  shows "hook_launch e call tab os st args = launch_outcome ret ta call (CUDA_FIND_ENTRY tab e) st args"
proof -
  have "sem_wait_loop os = Some ret" using os(2) unfolding os(1) by (induction n) auto
  then have "rate_limit os st = Inr (Some (if ret = - 1 then 999 else ret, after_wait ret ta st))"
    using st by (auto simp: rate_limit_def Let_def after_wait_def)
  then show ?thesis by (simp add: hook_launch_def launch_outcome_def CUDA_ENTRY_CALL_def BUG_ON_def Let_def)
qed

text \<open>C28: A launch hook of a limited process: once the wait for a token has succeeded, after any
  number of interruptions, it has taken one token and counted one launch, and returns what the
  real function of its own name returns for the unchanged arguments; a wait that fails gives 999
  without a launch; a function that was never resolved ends the process.\<close>

theorem launch_takes_one_token:
  assumes "core_limited st" "attr st = Some ta" "os = replicate n (- 1, EINTR) @ [(ret, err)]" "err \<noteq> EINTR"
  shows "hook_cuLaunchKernel call tab os st f gx gy gz bx by bz sh hs ps ex =
      launch_outcome ret ta call (real_pfn (tab ! 2)) st (LaunchKernel f gx gy gz bx by bz sh hs ps ex) \<and>
    hook_cuLaunchKernelEx call tab os st cfg f ps ex =
      launch_outcome ret ta call (real_pfn (tab ! 3)) st (LaunchKernelEx cfg f ps ex) \<and>
    hook_cuLaunchKernel_ptsz call tab os st f gx gy gz bx by bz sh hs ps ex =
      launch_outcome ret ta call (real_pfn (tab ! 4)) st (LaunchKernel f gx gy gz bx by bz sh hs ps ex) \<and>
    hook_cuLaunchKernelEx_ptsz call tab os st cfg f ps ex =
      launch_outcome ret ta call (real_pfn (tab ! 5)) st (LaunchKernelEx cfg f ps ex)"
  using hook_launch_outcome [OF assms]
  by (simp add: hook_cuLaunchKernel_def hook_cuLaunchKernelEx_def hook_cuLaunchKernel_ptsz_def hook_cuLaunchKernelEx_ptsz_def
      CUDA_FIND_ENTRY_def)

theorem launch_takes_one_token_witness:
  "\<exists>st'. hook_cuLaunchKernelEx (\<lambda>f args. if f = 9 then 0 else 1)
     ((cuda_hook_funcs_data (\<lambda>_. 1))[3 := \<lparr>real_pfn = 9, hook_pfn = 1, sym_name = ''cuLaunchKernelEx'', ent_flags = 0, ent_cudaVersion = 0\<rparr>])
     [(- 1, EINTR), (0, 0)] demo_limited_dev
     \<lparr>gridDimX = 1, gridDimY = 1, gridDimZ = 1, blockDimX = 32, blockDimY = 1, blockDimZ = 1\<rparr> 4096 8192 NULL =
     Inr (Some (0, st')) \<and> tokens st' = 0"
  using launch_takes_one_token [of demo_limited_dev demo_attr "[(- 1, EINTR), (0, 0)]" 1 0 0
      "\<lambda>f args. if f = 9 then 0 else 1"
      "(cuda_hook_funcs_data (\<lambda>_. 1))[3 := \<lparr>real_pfn = 9, hook_pfn = 1, sym_name = ''cuLaunchKernelEx'', ent_flags = 0, ent_cudaVersion = 0\<rparr>]"]
  by (simp add: demo_limited_dev_def launch_outcome_def after_wait_def cuda_hook_funcs_data_def)

end
