(* ===== verification/Monitor.thy ===== *)
theory Monitor
  imports Tokens
begin

text \<open>
  The monitor process (\<^verbatim>\<open>src/server_monitor.c\<close>): it maps the token object of a container, reads
  the utilisation of the container's processes from the NVML library every 100 ms and adjusts
  the tokens per cycle. The NVML library and the process files are parameters.
\<close>

subsection \<open>Constants and records\<close>

definition DEFAULT_WAIT_DURATION_MILLSEC :: int where
  "DEFAULT_WAIT_DURATION_MILLSEC = 100"

definition MODTIMES_PER_SEC :: int where
  "MODTIMES_PER_SEC = 1000 div DEFAULT_WAIT_DURATION_MILLSEC"

definition MIN_SAMPLE_UTIL :: int where
  "MIN_SAMPLE_UTIL = 3"

record nvmlProcessUtilizationSample_t =
  ns_pid :: u32
  ns_timeStamp :: u64
  ns_smUtil :: u32
  ns_memUtil :: u32
  ns_encUtil :: u32
  ns_decUtil :: u32

text \<open>The function pointers of the library, \<open>None\<close> while they have not been written.\<close>

record nvml_lib_t =
  nvmlInit :: "addr option"
  nvmlDeviceGetHandleByIndex :: "addr option"
  nvmlShutdown :: "addr option"
  nvmlDeviceGetProcessUtilization :: "addr option"
  nvmlDeviceGetClock :: "addr option"

definition no_nvml :: nvml_lib_t where
  "no_nvml = \<lparr>nvmlInit = None, nvmlDeviceGetHandleByIndex = None, nvmlShutdown = None,
     nvmlDeviceGetProcessUtilization = None, nvmlDeviceGetClock = None\<rparr>"

subsection \<open>Loading the library\<close>

definition read_pfn :: "addr option \<Rightarrow> addr res" where
  "read_pfn p = (case p of None \<Rightarrow> Inl UninitRead | Some a \<Rightarrow> Inr a)"

text \<open>\<open>opened\<close> is whether \<open>dlopen\<close> succeeded, \<open>look\<close> the answers of \<open>dlsym\<close>.\<close>

definition init_handle :: "bool \<Rightarrow> (string \<Rightarrow> addr) \<Rightarrow> nvml_lib_t \<Rightarrow> (int \<times> nvml_lib_t) res" where
  "init_handle opened look hdr =
     (if \<not> opened then Inr (- 1, hdr)
      else let either = (\<lambda>n m. if look n \<noteq> NULL then look n else look m);
               a = either ''nvmlInit'' ''nvmlInit_v2'';
               hdr = (if a \<noteq> NULL then hdr\<lparr>nvmlInit := Some a\<rparr> else hdr)
        in bindR (read_pfn (nvmlInit hdr)) (\<lambda>p.
           if p = NULL then Inr (- 1, hdr)
           else let a = either ''nvmlDeviceGetHandleByIndex'' ''nvmlDeviceGetHandleByIndex_v2'';
                    hdr = (if a \<noteq> NULL then hdr\<lparr>nvmlDeviceGetHandleByIndex := Some a\<rparr> else hdr)
             in bindR (read_pfn (nvmlDeviceGetHandleByIndex hdr)) (\<lambda>p.
                if p = NULL then Inr (- 1, hdr)
                else if look ''nvmlShutdown'' = NULL then Inr (- 1, hdr)
                else let hdr = hdr\<lparr>nvmlShutdown := Some (look ''nvmlShutdown'')\<rparr> in
                  if look ''nvmlDeviceGetProcessUtilization'' = NULL then Inr (- 1, hdr)
                  else let hdr = hdr\<lparr>nvmlDeviceGetProcessUtilization := Some (look ''nvmlDeviceGetProcessUtilization'')\<rparr> in
                    if look ''nvmlDeviceGetClock'' = NULL then Inr (- 1, hdr)
                    else Inr (0, hdr\<lparr>nvmlDeviceGetClock := Some (look ''nvmlDeviceGetClock'')\<rparr>))))"

subsection \<open>The shared record\<close>

abbreviation sfl :: "int \<Rightarrow> cfloat" where
  "sfl \<equiv> fl_of_int binary32"

text \<open>
  The monitor's initialisation of the shared record. When the limit of a running container
  changes, the new cycle is computed from the limit that has just been overwritten.
\<close>

definition init_attr :: "token_attr_t \<Rightarrow> int \<Rightarrow> token_attr_t res" where
  "init_attr ta limit =
     (let ta = (if \<not> inited ta
        then ta\<lparr>params := (params ta)\<lparr>core_limit := limit, mod_times := 0, add_per_cycle := 1, avg_launchs := [0, 0], launch_idx := 0\<rparr>,
               wait_time := \<lparr>tv_sec = 0, tv_nsec = DEFAULT_WAIT_DURATION_MILLSEC * 1000 * 1000\<rparr>,
               inited := True, ready := Suc (ready ta)\<rparr>
        else ta)
      in bindR (if core_limit (params ta) \<noteq> limit then
           let p = (params ta)\<lparr>core_limit := limit, mod_times := 0\<rparr> in
           bindR (fl_to_int (fl_div binary32 (fl_mul binary32 (sfl (add_per_cycle p)) (sfl (core_limit p))) (sfl limit))) (\<lambda>new_cycle.
             Inr (ta\<lparr>params := p\<lparr>add_per_cycle := if 1 < new_cycle then new_cycle else 1\<rparr>\<rparr>))
         else Inr ta) (\<lambda>ta. Inr (ta\<lparr>changed := True\<rparr>)))"

subsection \<open>The controller\<close>

text \<open>An element of the two averages; the index is a C remainder by two.\<close>

definition avg_at :: "token_param_t \<Rightarrow> int \<Rightarrow> int res" where
  "avg_at p i = (if i < 0 \<and> odd i then Inl BadAccess else Inr (avg_launchs p ! nat (i mod 2)))"

text \<open>A quarter of the tokens that would close the gap, and the correction against overload.\<close>

definition quarter_step :: "int \<Rightarrow> int \<Rightarrow> int \<Rightarrow> int res" where
  "quarter_step util err cur =
     (let util_per_kernel = fl_div binary32 (sfl util) (sfl cur) in
      bindR (ck \<bar>err\<bar>) (\<lambda>e.
      bindR (fl_to_int (fl_div binary32 (fl_div binary32 (sfl e) util_per_kernel) (sfl 4))) (\<lambda>d.
        Inr (if d < 0 then 1 else d))))"

definition damped_cycle :: "int \<Rightarrow> int \<Rightarrow> int \<Rightarrow> int \<Rightarrow> int \<Rightarrow> int res" where
  "damped_cycle old new sg cur last_avg =
     bindR (ck (cur - last_avg)) (\<lambda>d.
     bindR (ck \<bar>d\<bar>) (\<lambda>d.
     bindR (ck (last_avg + 1)) (\<lambda>l1.
     bindR (ck (new - old)) (\<lambda>c.
     bindR (ck \<bar>c\<bar>) (\<lambda>c.
       let avg_delta_ratio = fl_div binary32 (sfl d) (sfl l1); cycle_delta_ratio = fl_div binary32 (sfl c) (sfl old) in
       if cur \<noteq> last_avg \<and> fl_less avg_delta_ratio cycle_delta_ratio
       then fl_to_int (fl_add binary32 (sfl old) (fl_mul binary32 (fl_mul binary32 (sfl last_avg) avg_delta_ratio) (sfl sg)))
       else Inr new)))))"

definition delta_change :: "token_attr_t \<Rightarrow> int \<Rightarrow> int \<Rightarrow> token_attr_t res" where
  "delta_change ta util limit =
     (if changed ta then Inr ta
      else let p = params ta; sample_ticks = MODTIMES_PER_SEC * 5; old_cycle = add_per_cycle p in
        bindR (avg_at p (launch_idx p)) (\<lambda>cur.
        bindR (ck (launch_idx p + 1)) (\<lambda>i1.
        bindR (avg_at p i1) (\<lambda>last_avg.
        bindR (ck (limit - util)) (\<lambda>err.
        bindR (ck (mod_times p + 1)) (\<lambda>mt.
          let p = p\<lparr>mod_times := mt\<rparr> in
          if mt \<le> sample_ticks then
            (if old_cycle \<le> MIN_SAMPLE_UTIL then
               bindR (ck (old_cycle + 1)) (\<lambda>n. Inr (ta\<lparr>params := p\<lparr>add_per_cycle := n\<rparr>, changed := True\<rparr>))
             else Inr (ta\<lparr>params := p\<rparr>))
          else if mt mod sample_ticks = 0 then
            let cycle_signed = (if 0 < err then 1 else - 1) in
            bindR (quarter_step util err cur) (\<lambda>delta_cycle.
            bindR (ck (old_cycle + delta_cycle * cycle_signed)) (\<lambda>new_cycle.
            bindR (damped_cycle old_cycle new_cycle cycle_signed cur last_avg) (\<lambda>new_cycle.
              Inr (ta\<lparr>params := p\<lparr>add_per_cycle := if new_cycle < 1 then 1 else new_cycle\<rparr>, changed := True\<rparr>))))
          else Inr (ta\<lparr>params := p\<rparr>)))))))"

subsection \<open>Reading the utilisation\<close>

text \<open>
  \<open>cg\<close> gives the lines of the control-group file of a process. The buffer for the identifier
  is reused from one sample to the next.
\<close>

fun util_loop ::
  "(u32 \<Rightarrow> string list option) \<Rightarrow> string \<Rightarrow> u64 \<Rightarrow> nvmlProcessUtilizationSample_t list \<Rightarrow> string \<Rightarrow> nvmlProcessUtilizationSample_t option res" where
  "util_loop cg cgroup_id last_seen [] buf = Inr None"
| "util_loop cg cgroup_id last_seen (s # ss) buf =
     (if ns_timeStamp s < last_seen then util_loop cg cgroup_id last_seen ss buf
      else bindR (get_cgroup_id (cg (ns_pid s)) buf MAX_CGROUP_ID_LEN) (\<lambda>(ret, buf).
        if ret = 0 \<and> cstr buf = cgroup_id then Inr (Some s) else util_loop cg cgroup_id last_seen ss buf))"

text \<open>The start of the round in microseconds, an unsigned sum.\<close>

definition seen_us :: "timespec \<Rightarrow> u64" where
  "seen_us t = word_of_int (tv_sec t) * 1000 * 1000 + word_of_int (tv_nsec t) div 1000"

definition get_gpu_util ::
  "(u64 \<Rightarrow> int \<times> nvmlProcessUtilizationSample_t list) \<Rightarrow> (u32 \<Rightarrow> string list option) \<Rightarrow> string \<Rightarrow> timespec \<Rightarrow> int res" where
  "get_gpu_util nvml cg cgroup_id last_time =
     (let last_seen = seen_us last_time in
      case nvml last_seen of (ret, samples) \<Rightarrow>
        if ret \<noteq> 0 then Inr (- 1)
        else bindR (util_loop cg cgroup_id last_seen samples (replicate MAX_CGROUP_ID_LEN NUL)) (\<lambda>r.
          case r of None \<Rightarrow> Inr (- 1) | Some s \<Rightarrow> Inr (to_int (uint (ns_smUtil s)))))"

subsection \<open>The main loop\<close>

text \<open>One round of the loop, for the time it read and the answer of the library.\<close>

definition watch_round ::
  "(u32 \<Rightarrow> string list option) \<Rightarrow> string \<Rightarrow> int \<Rightarrow> token_attr_t \<Rightarrow> timespec \<times> (u64 \<Rightarrow> int \<times> nvmlProcessUtilizationSample_t list) \<Rightarrow>
     token_attr_t res" where
  "watch_round cg cgroup_id limit ta rd =
     bindR (get_gpu_util (snd rd) cg cgroup_id (fst rd)) (\<lambda>util.
       if util < 0 then Inr ta else delta_change ta util limit)"

fun watch_loop ::
  "(u32 \<Rightarrow> string list option) \<Rightarrow> string \<Rightarrow> int \<Rightarrow> token_attr_t \<Rightarrow> (timespec \<times> (u64 \<Rightarrow> int \<times> nvmlProcessUtilizationSample_t list)) list \<Rightarrow>
     token_attr_t res" where
  "watch_loop cg cgroup_id limit ta [] = Inr ta"
| "watch_loop cg cgroup_id limit ta (rd # rds) =
     bindR (watch_round cg cgroup_id limit ta rd) (\<lambda>ta. watch_loop cg cgroup_id limit ta rds)"

text \<open>
  The environment of the process: the answers of NVML, of the shared object and of \<open>malloc\<close>.
  The loop has no end; \<open>rounds\<close> are the rounds it has done so far, and the result is \<open>None\<close>
  when it was not entered and the record after these rounds otherwise.
\<close>

record monitor_env =
  me_handle :: "u32 \<Rightarrow> int"
  me_shm :: "string \<Rightarrow> shm_calls"
  me_attr :: "string \<Rightarrow> token_attr_t"
  me_malloc :: bool
  me_max_clock :: "int \<times> u32"
  me_cur_clock :: "int \<times> u32"
  me_cgroup :: "u32 \<Rightarrow> string list option"
  me_rounds :: "(timespec \<times> (u64 \<Rightarrow> int \<times> nvmlProcessUtilizationSample_t list)) list"

definition watch_dog :: "monitor_env \<Rightarrow> u32 \<Rightarrow> string \<Rightarrow> int \<Rightarrow> token_attr_t option res" where
  "watch_dog me mnr cgroup_id limit =
     (if me_handle me mnr \<noteq> 0 then Inr None
      else let path = token_shm_path mnr cgroup_id in
        case create_shm_addr (me_shm me path) \<lparr>sd_fd = None, sd_addr = None\<rparr> of (a, sd, zeroed) \<Rightarrow>
          if a = NULL then Inr None
          else if a = MAP_FAILED then Inl BadAccess
          else bindR (init_attr (if zeroed then zero_attr else me_attr me path) limit) (\<lambda>ta.
            if \<not> me_malloc me then Inr None
            else if fst (me_max_clock me) \<noteq> 0 then Inr None
            else bindR (watch_loop (me_cgroup me) cgroup_id limit ta (me_rounds me)) (\<lambda>ta. Inr (Some ta))))"

text \<open>
  The buffer of the identifier has 16 bytes; an argument of 16 or more characters leaves no
  room for the null character, and printing the buffer reads behind it.
\<close>

definition server_cgroup_id :: "string \<Rightarrow> string res" where
  "server_cgroup_id arg =
     (let buf = strncpy (replicate MAX_CGROUP_ID_LEN NUL) arg MAX_CGROUP_ID_LEN in
      if NUL \<notin> set buf then Inl BadAccess else Inr (cstr buf))"

definition main ::
  "monitor_env \<Rightarrow> bool \<Rightarrow> (string \<Rightarrow> addr) \<Rightarrow> int \<Rightarrow> string list \<Rightarrow> (int \<times> token_attr_t option) res" where
  "main me opened look init_ret argv =
     (if length argv \<noteq> 4 then Inl (ProcessExit (- 1))
      else let mnr = word_of_int (strtol (argv ! 1)); core_limit = to_int (strtol (argv ! 3)) in
        bindR (server_cgroup_id (argv ! 2)) (\<lambda>cgroup_id.
        bindR (init_handle opened look no_nvml) (\<lambda>(ret, handler).
          if ret < 0 then Inl (ProcessExit (- 1))
          else if init_ret \<noteq> 0 then Inl (ProcessExit (- 1))
          else bindR (watch_dog me mnr cgroup_id core_limit) (\<lambda>r. Inr (0, r)))))"

subsection \<open>Single-precision values\<close>

lemma rat_between: "a \<le> i \<Longrightarrow> i \<le> b \<Longrightarrow> of_int a \<le> (of_int i :: rat) \<and> (of_int i :: rat) \<le> of_int b"
  by simp

lemma sfl_exact: "\<bar>i\<bar> < 2 ^ 24 \<Longrightarrow> sfl i = Fin (of_int i)"
  using single.fl_of_int_exact [of i] by (simp add: binary32_def)

lemma rnd_int: "\<bar>i\<bar> < 2 ^ 24 \<Longrightarrow> rnd binary32 (of_int i) = Fin (of_int i)"
  using sfl_exact [of i] by (simp add: fl_of_int_def)

lemma rnd_power2: "- 149 \<le> k \<Longrightarrow> k \<le> 104 \<Longrightarrow> rnd binary32 (2 powi k) = Fin (2 powi k)"
  using single.rnd_exact [of 1 k] by (simp add: binary32_def)

lemma rnd_between_ints:
  assumes "of_int a \<le> x" "x \<le> of_int b" "\<bar>a\<bar> < 2 ^ 24" "\<bar>b\<bar> < 2 ^ 24"
  shows "\<exists>u. rnd binary32 x = Fin u \<and> of_int a \<le> u \<and> u \<le> of_int b"
  using single.rnd_between [OF assms(1,2) rnd_int [OF assms(3)] rnd_int [OF assms(4)]] by blast

lemma rnd_at_least:
  assumes "(2::rat) powi k \<le> x" "x \<le> of_int b" "- 149 \<le> k" "k \<le> 104" "\<bar>b\<bar> < 2 ^ 24"
  shows "\<exists>u. rnd binary32 x = Fin u \<and> 2 powi k \<le> u \<and> u \<le> of_int b"
  using single.rnd_between [OF assms(1,2) rnd_power2 [OF assms(3,4)] rnd_int [OF assms(5)]] by blast

subsection \<open>Bounds of the controller's arithmetic\<close>

text \<open>
  For a utilisation between 1 and 100 percent, a limit of at most 100 percent and at most
  \<open>2 ^ 14\<close> launches per cycle (more than 160000 launches per second), a quarter of the gap is
  at most \<open>409600\<close> tokens.
\<close>

lemma quarter_step_ok:
  assumes "1 \<le> util" "util \<le> 100" "\<bar>err\<bar> \<le> 100" "0 \<le> cur" "cur \<le> 2 ^ 14"
  shows "\<exists>d. quarter_step util err cur = Inr d \<and> 0 \<le> d \<and> d \<le> 409600"
proof (cases "cur = 0")
  case True
  have "sfl util = Fin (of_int util)" "sfl cur = Fin 0" "sfl \<bar>err\<bar> = Fin (of_int \<bar>err\<bar>)" "sfl 4 = Fin 4"
    using assms True sfl_exact [of util] sfl_exact [of 0] sfl_exact [of "\<bar>err\<bar>"] sfl_exact [of 4] by simp_all
  moreover have "rnd binary32 0 = Fin 0" using rnd_int [of 0] by simp
  ultimately show ?thesis using assms
    by (simp add: quarter_step_def int32_range_def trunc_def)
next
  case False
  then have cur: "1 \<le> (of_int cur :: rat)" "(of_int cur :: rat) \<le> 2 ^ 14"
    using rat_between [of 1 cur "2 ^ 14"] assms by simp_all
  have util: "1 \<le> (of_int util :: rat)" "(of_int util :: rat) \<le> 100"
    using rat_between [of 1 util 100] assms by simp_all
  have fl: "sfl util = Fin (of_int util)" "sfl cur = Fin (of_int cur)" "sfl \<bar>err\<bar> = Fin (of_int \<bar>err\<bar>)" "sfl 4 = Fin 4"
    using assms sfl_exact [of util] sfl_exact [of cur] sfl_exact [of "\<bar>err\<bar>"] sfl_exact [of 4] by simp_all
  have "2 powi (- 14) \<le> (of_int util / of_int cur :: rat)" "(of_int util / of_int cur :: rat) \<le> of_int 100"
  proof -
    have "of_int cur \<le> 2 ^ 14 * (of_int util :: rat)" using cur util by simp
    then show "2 powi (- 14) \<le> (of_int util / of_int cur :: rat)" using cur by (simp add: power_int_def field_simps)
    have "of_int util \<le> 100 * (of_int cur :: rat)" using cur util by simp
    then show "(of_int util / of_int cur :: rat) \<le> of_int 100" using cur by (simp add: field_simps)
  qed
  then obtain u where u: "rnd binary32 (of_int util / of_int cur) = Fin u" "2 powi (- 14) \<le> u"
    using rnd_at_least [of "- 14" "of_int util / of_int cur" 100] by auto
  have upos: "0 < u" "1 \<le> 2 ^ 14 * u" using u(2) by (simp_all add: power_int_def field_simps)
  have e: "0 \<le> (of_int \<bar>err\<bar> :: rat)" "(of_int \<bar>err\<bar> :: rat) \<le> 100"
    using rat_between [of 0 "\<bar>err\<bar>" 100] assms(3) by simp_all
  have "of_int 0 \<le> of_int \<bar>err\<bar> / u" "of_int \<bar>err\<bar> / u \<le> of_int 1638400"
    using e upos mult_mono [of "of_int \<bar>err\<bar>" 100 1 "2 ^ 14 * u"] by (simp_all add: field_simps)
  then obtain v where v: "rnd binary32 (of_int \<bar>err\<bar> / u) = Fin v" "0 \<le> v" "v \<le> 1638400"
    using rnd_between_ints [of 0 "of_int \<bar>err\<bar> / u" 1638400] by auto
  have "of_int 0 \<le> v / 4" "v / 4 \<le> of_int 409600" using v by simp_all
  then obtain w where w: "rnd binary32 (v / 4) = Fin w" "of_int 0 \<le> w" "w \<le> of_int 409600"
    using rnd_between_ints [of 0 "v / 4" 409600] by auto
  obtain i where i: "fl_to_int (Fin w) = Inr i" "0 \<le> i" "i \<le> 409600"
    using fl_to_int_between [OF w(2,3)] by (auto simp: int32_range_def)
  have "ck \<bar>err\<bar> = Inr \<bar>err\<bar>" using assms(3) by (simp add: int32_range_def)
  then show ?thesis using i fl u(1) v(1) w(1) upos(1) False by (simp add: quarter_step_def)
qed

text \<open>The correction of an overloaded step moves by at most \<open>32768\<close> tokens, in the given direction.\<close>

lemma overload_ok:
  assumes d: "1 \<le> d" "d \<le> 2 ^ 14" and l: "0 \<le> l" "l \<le> 2 ^ 14" and old: "1 \<le> old" "old < 2 ^ 23" and sg: "sg \<in> {1, - 1}"
  shows "\<exists>n. fl_to_int (fl_add binary32 (sfl old)
      (fl_mul binary32 (fl_mul binary32 (sfl l) (fl_div binary32 (sfl d) (sfl (l + 1)))) (sfl sg))) = Inr n \<and>
    (sg = 1 \<longrightarrow> old \<le> n \<and> n \<le> old + 32768) \<and> (sg = - 1 \<longrightarrow> old - 32768 \<le> n \<and> n \<le> old)"
proof -
  define q :: rat where "q = of_int d / of_int (l + 1)"
  have dr: "1 \<le> (of_int d :: rat)" "(of_int d :: rat) \<le> 2 ^ 14" using rat_between [of 1 d "2 ^ 14"] d by simp_all
  have lr: "0 \<le> (of_int l :: rat)" "(of_int l :: rat) \<le> 2 ^ 14" using rat_between [of 0 l "2 ^ 14"] l by simp_all
  have q: "2 powi (- 15) \<le> q" "q \<le> of_int 16384"
    using dr lr by (simp_all add: q_def power_int_def field_simps)
  have qpos: "0 < q" using dr lr by (simp add: q_def)
  obtain r where r: "rnd binary32 q = Fin r" "2 powi (- 15) \<le> r" using rnd_at_least [OF q] by auto
  have normal: "2 powi emin binary32 \<le> q"
    using q(1) order_trans [of "2 powi (- 126) :: rat" "2 powi (- 15)" q] by (simp add: binary32_def powi_le_iff)
  have r2: "r \<le> 2 * q" using single.rnd_le_double [OF less_imp_le [OF qpos] r(1)] normal by simp
  have rpos: "0 < r" using r(2) by (simp add: power_int_def field_simps)
  have "of_int l * r \<le> of_int l * (2 * q)" using lr r2 by (intro mult_left_mono) auto
  also have "\<dots> \<le> 2 * of_int d" using dr lr by (simp add: q_def field_simps)
  finally have lr2: "of_int l * r \<le> of_int 32768" using dr by simp
  obtain p where p: "rnd binary32 (of_int l * r) = Fin p" "0 \<le> p" "p \<le> 32768"
    using rnd_between_ints [of 0 "of_int l * r" 32768] lr2 lr rpos by auto
  have fl: "sfl old = Fin (of_int old)" "sfl l = Fin (of_int l)" "sfl d = Fin (of_int d)"
    "sfl (l + 1) = Fin (of_int (l + 1))" "sfl sg = Fin (of_int sg)"
    using sfl_exact [of old] sfl_exact [of l] sfl_exact [of d] sfl_exact [of "l + 1"] sfl_exact [of sg] assms by auto
  define a b :: int where "a = (if sg = 1 then 0 else - 32768)" and "b = (if sg = 1 then 32768 else 0)"
  then have ab: "- 32768 \<le> a" "a \<le> 0" "0 \<le> b" "b \<le> 32768" by auto
  obtain p' where p': "rnd binary32 (p * of_int sg) = Fin p'" "of_int a \<le> p'" "p' \<le> of_int b"
    using rnd_between_ints [of a "p * of_int sg" b] p sg by (auto simp: a_def b_def)
  have "\<bar>old + a\<bar> < 2 ^ 24" "\<bar>old + b\<bar> < 2 ^ 24"
    using old ab by (simp_all add: abs_less_iff)
  then obtain x where x: "rnd binary32 (of_int old + p') = Fin x" "of_int (old + a) \<le> x" "x \<le> of_int (old + b)"
    using rnd_between_ints [of "old + a" "of_int old + p'" "old + b"] p'(2,3) by auto
  obtain n where n: "fl_to_int (Fin x) = Inr n" "old + a \<le> n" "n \<le> old + b"
    using fl_to_int_between [OF x(2,3)] old ab by (auto simp: int32_range_def)
  have "fl_div binary32 (sfl d) (sfl (l + 1)) = Fin r" using fl r(1) l by (simp add: q_def)
  then show ?thesis using n fl p(1) p'(1) x(1) by (auto simp: a_def b_def)
qed

lemma damped_cycle_ok:
  assumes cur: "0 \<le> cur" "cur \<le> 2 ^ 14" and l: "0 \<le> l" "l \<le> 2 ^ 14" and old: "1 \<le> old" "old < 2 ^ 23"
    and c: "0 \<le> c" "c \<le> 409600" and sg: "sg \<in> {1, - 1}"
  shows "\<exists>n. damped_cycle old (old + c * sg) sg cur l = Inr n \<and> \<bar>n - old\<bar> \<le> 409600 \<and>
    (sg = 1 \<longrightarrow> old \<le> n) \<and> (sg = - 1 \<longrightarrow> n \<le> old)"
proof -
  have range: "int32_range (cur - l)" "int32_range \<bar>cur - l\<bar>" "int32_range (l + 1)" "int32_range (old + c * sg - old)"
    "int32_range \<bar>old + c * sg - old\<bar>"
    using assms by (auto simp: int32_range_def)
  show ?thesis
  proof (cases "cur \<noteq> l \<and> fl_less (fl_div binary32 (sfl \<bar>cur - l\<bar>) (sfl (l + 1))) (fl_div binary32 (sfl \<bar>old + c * sg - old\<bar>) (sfl old))")
    case True
    then have "1 \<le> \<bar>cur - l\<bar>" "\<bar>cur - l\<bar> \<le> 2 ^ 14" using cur l by auto
    from overload_ok [OF this l old sg] True range sg show ?thesis
      unfolding damped_cycle_def by (auto simp: Let_def)
  next
    case False
    then show ?thesis using range c sg unfolding damped_cycle_def by (auto simp: Let_def)
  qed
qed

subsection \<open>The ticks of the controller\<close>

text \<open>A record as the client writes it: two averages of at most \<open>2 ^ 14\<close>, a non-negative index.\<close>

definition record_ok :: "token_attr_t \<Rightarrow> bool" where
  "record_ok ta \<longleftrightarrow> length (avg_launchs (params ta)) = 2 \<and> (\<forall>a \<in> set (avg_launchs (params ta)). 0 \<le> a \<and> a \<le> 2 ^ 14) \<and>
     0 \<le> launch_idx (params ta) \<and> launch_idx (params ta) < 2 ^ 31 - 1 \<and>
     0 \<le> mod_times (params ta) \<and> mod_times (params ta) < 2 ^ 31 - 1"

lemma avg_at_ok:
  assumes "record_ok ta" "0 \<le> i"
  shows "\<exists>a. avg_at (params ta) i = Inr a \<and> 0 \<le> a \<and> a \<le> 2 ^ 14"
proof -
  have "nat (i mod 2) < 2" by simp
  then have "avg_launchs (params ta) ! nat (i mod 2) \<in> set (avg_launchs (params ta))"
    using assms(1) by (intro nth_mem) (simp add: record_ok_def)
  then show ?thesis using assms unfolding avg_at_def record_ok_def by auto
qed

text \<open>The reads before the tick is decided succeed, so the tick alone decides the outcome.\<close>

lemma delta_change_tick:
  assumes ok: "record_ok ta" and "\<not> changed ta" and r: "0 \<le> util" "util \<le> 100" "0 \<le> limit" "limit \<le> 100"
  obtains cur last_avg where "0 \<le> cur" "cur \<le> 2 ^ 14" "0 \<le> last_avg" "last_avg \<le> 2 ^ 14"
    "avg_at (params ta) (launch_idx (params ta)) = Inr cur" "avg_at (params ta) (launch_idx (params ta) + 1) = Inr last_avg"
    "int32_range (launch_idx (params ta) + 1)" "int32_range (limit - util)" "int32_range (mod_times (params ta) + 1)"
proof -
  have i: "0 \<le> launch_idx (params ta)" "0 \<le> launch_idx (params ta) + 1" using ok by (auto simp: record_ok_def)
  have "int32_range (launch_idx (params ta) + 1)" "int32_range (limit - util)" "int32_range (mod_times (params ta) + 1)"
    using ok r by (auto simp: record_ok_def int32_range_def)
  with avg_at_ok [OF ok i(1)] avg_at_ok [OF ok i(2)] that show ?thesis by blast
qed

lemma delta_change_ramp:
  assumes "record_ok ta" "\<not> changed ta" "0 \<le> util" "util \<le> 100" "0 \<le> limit" "limit \<le> 100"
    and "mod_times (params ta) < 50" "1 \<le> add_per_cycle (params ta)"
  shows "delta_change ta util limit = Inr (ta\<lparr>params := (params ta)\<lparr>mod_times := mod_times (params ta) + 1,
      add_per_cycle := if add_per_cycle (params ta) \<le> 3 then add_per_cycle (params ta) + 1 else add_per_cycle (params ta)\<rparr>,
    changed := add_per_cycle (params ta) \<le> 3\<rparr>)"
  by (rule delta_change_tick [OF assms(1-6)])
    (use assms(2,7,8) in \<open>auto simp: delta_change_def Let_def MODTIMES_PER_SEC_def DEFAULT_WAIT_DURATION_MILLSEC_def
      MIN_SAMPLE_UTIL_def int32_range_def\<close>)

lemma delta_change_idle:
  assumes "record_ok ta" "\<not> changed ta" "0 \<le> util" "util \<le> 100" "0 \<le> limit" "limit \<le> 100"
    and "50 \<le> mod_times (params ta)" "(mod_times (params ta) + 1) mod 50 \<noteq> 0"
  shows "delta_change ta util limit = Inr (ta\<lparr>params := (params ta)\<lparr>mod_times := mod_times (params ta) + 1\<rparr>\<rparr>)"
  by (rule delta_change_tick [OF assms(1-6)])
    (use assms(2,7,8) in \<open>auto simp: delta_change_def Let_def MODTIMES_PER_SEC_def DEFAULT_WAIT_DURATION_MILLSEC_def\<close>)

lemma delta_change_adjust:
  assumes ok: "record_ok ta" and ch: "\<not> changed ta" and util: "1 \<le> util" "util \<le> 100" and limit: "0 \<le> limit" "limit \<le> 100"
    and tick: "50 \<le> mod_times (params ta)" "(mod_times (params ta) + 1) mod 50 = 0"
    and old: "1 \<le> add_per_cycle (params ta)" "add_per_cycle (params ta) < 2 ^ 23"
  shows "\<exists>n. delta_change ta util limit = Inr (ta\<lparr>params := (params ta)\<lparr>mod_times := mod_times (params ta) + 1, add_per_cycle := n\<rparr>,
      changed := True\<rparr>) \<and> 1 \<le> n \<and> \<bar>n - add_per_cycle (params ta)\<bar> \<le> 409600 \<and>
    (util < limit \<longrightarrow> add_per_cycle (params ta) \<le> n) \<and> (limit \<le> util \<longrightarrow> n \<le> add_per_cycle (params ta))"
proof -
  define old where "old = add_per_cycle (params ta)"
  define sg :: int where "sg = (if 0 < limit - util then 1 else - 1)"
  have util0: "0 \<le> util" using util by simp
  have o: "1 \<le> old" "old < 2 ^ 23" and sg: "sg \<in> {1, - 1}" using assms(9,10) by (simp_all add: old_def sg_def)
  obtain cur l where cl: "0 \<le> cur" "cur \<le> 2 ^ 14" "0 \<le> l" "l \<le> 2 ^ 14"
    and reads: "avg_at (params ta) (launch_idx (params ta)) = Inr cur" "avg_at (params ta) (launch_idx (params ta) + 1) = Inr l"
      "int32_range (launch_idx (params ta) + 1)" "int32_range (limit - util)" "int32_range (mod_times (params ta) + 1)"
    by (rule delta_change_tick [OF ok ch util0 util(2) limit])
  have "\<bar>limit - util\<bar> \<le> 100" using util limit by simp
  then obtain d where d: "quarter_step util (limit - util) cur = Inr d" "0 \<le> d" "d \<le> 409600"
    using quarter_step_ok [OF util _ cl(1,2)] by auto
  obtain n where n: "damped_cycle old (old + d * sg) sg cur l = Inr n" "\<bar>n - old\<bar> \<le> 409600"
    "sg = 1 \<longrightarrow> old \<le> n" "sg = - 1 \<longrightarrow> n \<le> old"
    using damped_cycle_ok [OF cl o d(2,3) sg] by blast
  have "int32_range (old + d * sg)" using d assms(9,10) by (auto simp: int32_range_def sg_def old_def)
  then have "delta_change ta util limit = Inr (ta\<lparr>params := (params ta)\<lparr>mod_times := mod_times (params ta) + 1,
      add_per_cycle := if n < 1 then 1 else n\<rparr>, changed := True\<rparr>)"
    using ch tick reads d(1) n(1)
    by (cases "util < limit")
      (simp_all add: delta_change_def Let_def MODTIMES_PER_SEC_def DEFAULT_WAIT_DURATION_MILLSEC_def sg_def flip: old_def)
  moreover have "\<bar>(if n < 1 then 1 else n) - old\<bar> \<le> 409600" using n(2) assms(9) by (auto simp: old_def)
  moreover have "util < limit \<Longrightarrow> sg = 1" "limit \<le> util \<Longrightarrow> sg = - 1" by (auto simp: sg_def)
  ultimately show ?thesis using n(3,4) assms(9) unfolding old_def [symmetric]
    by (intro exI [of _ "if n < 1 then 1 else n"]) (auto simp: old_def)
qed

subsection \<open>Matching samples\<close>

text \<open>What the identifier in the buffer is does not depend on what the buffer held before.\<close>

lemma length_strncpy: "k \<le> length dst \<Longrightarrow> length (strncpy dst src k) = length dst"
  by (simp add: strncpy_def)

lemma strncpy_ended:
  assumes "0 < k"
  shows "cstr ((strncpy dst src k)[k - 1 := NUL]) = cstr ((strncpy dst' src k)[k - 1 := NUL])"
proof -
  define z where "z = take k (cstr src @ replicate k NUL)"
  have "length z = k" by (simp add: z_def)
  then have z: "(z @ r)[k - 1 := NUL] = take (k - 1) z @ NUL # r" for r
    using assms by (simp add: list_update_append1 upd_conv_take_nth_drop)
  show ?thesis unfolding strncpy_def z_def [symmetric] z by (auto simp: cstr_def takeWhile_append)
qed

lemma cgroup_lines_buffer:
  assumes "length b = n" "length b' = n"
  shows "case cgroup_lines lines b n of
      Inl e \<Rightarrow> cgroup_lines lines b' n = Inl e
    | Inr (ret, buf) \<Rightarrow> length buf = n \<and> (\<exists>buf'. cgroup_lines lines b' n = Inr (ret, buf') \<and> (ret = 0 \<longrightarrow> cstr buf = cstr buf'))"
proof (induction lines)
  case (Cons line lines)
  then show ?case using assms strncpy_ended [of _ b _ b']
    by (auto simp: Let_def length_strncpy min_def split: option.splits sum.splits if_splits)
qed (use assms in simp)

definition sample_id :: "(u32 \<Rightarrow> string list option) \<Rightarrow> u32 \<Rightarrow> string option res" where
  "sample_id cg p = bindR (get_cgroup_id (cg p) (replicate MAX_CGROUP_ID_LEN NUL) MAX_CGROUP_ID_LEN)
     (\<lambda>(ret, buf). Inr (if ret = 0 then Some (cstr buf) else None))"

lemma sample_id_buffer:
  assumes "length b = MAX_CGROUP_ID_LEN" "sample_id cg p = Inr r"
  shows "\<exists>ret b'. get_cgroup_id (cg p) b MAX_CGROUP_ID_LEN = Inr (ret, b') \<and> length b' = MAX_CGROUP_ID_LEN \<and>
    r = (if ret = 0 then Some (cstr b') else None)"
proof (cases "cg p")
  case None
  then show ?thesis using assms by (auto simp: sample_id_def get_cgroup_id_def)
next
  case (Some lines)
  then show ?thesis
    using cgroup_lines_buffer [OF assms(1) length_replicate [of MAX_CGROUP_ID_LEN NUL], of lines] assms(2)
    by (fastforce simp: sample_id_def get_cgroup_id_def bindR_eq_Inr split: sum.splits prod.splits)
qed

lemma util_loop_skip:
  assumes "length b = MAX_CGROUP_ID_LEN"
    and "\<forall>x \<in> set pre. ns_timeStamp x < seen \<or> (\<exists>r. sample_id cg (ns_pid x) = Inr r \<and> r \<noteq> Some ident)"
  shows "\<exists>b'. length b' = MAX_CGROUP_ID_LEN \<and> util_loop cg ident seen (pre @ later) b = util_loop cg ident seen later b'"
  using assms
proof (induction pre arbitrary: b)
  case (Cons x pre)
  show ?case
  proof (cases "ns_timeStamp x < seen")
    case False
    then obtain r where "sample_id cg (ns_pid x) = Inr r" "r \<noteq> Some ident" using Cons.prems(2) by auto
    with sample_id_buffer [OF Cons.prems(1)] obtain ret b' where "get_cgroup_id (cg (ns_pid x)) b MAX_CGROUP_ID_LEN = Inr (ret, b')"
      "length b' = MAX_CGROUP_ID_LEN" "\<not> (ret = 0 \<and> cstr b' = ident)" by force
    with False Cons.IH [of b'] Cons.prems(2) show ?thesis by auto
  qed (use Cons in simp)
qed auto

subsection \<open>Facts on the record and the names\<close>

lemma zero_util_step: "\<bar>err\<bar> \<le> 100 \<Longrightarrow> \<bar>cur\<bar> \<le> 2 ^ 14 \<Longrightarrow> quarter_step 0 err cur = Inl FloatCast"
  using sfl_exact [of 0] sfl_exact [of cur] sfl_exact [of "\<bar>err\<bar>"] sfl_exact [of 4] rnd_int [of 0]
  by (simp add: quarter_step_def int32_range_def)

lemma rescale_noop:
  assumes "1 \<le> n" "1 \<le> limit" "n * limit < 2 ^ 24"
  shows "fl_to_int (fl_div binary32 (fl_mul binary32 (sfl n) (sfl limit)) (sfl limit)) = Inr n"
proof -
  have "n \<le> n * limit" "limit \<le> n * limit" using assms by simp_all
  then have r: "\<bar>n\<bar> < 2 ^ 24" "\<bar>limit\<bar> < 2 ^ 24" "\<bar>n * limit\<bar> < 2 ^ 24" using assms by linarith+
  have "rnd binary32 (of_int n * of_int limit) = Fin (of_int (n * limit))" using rnd_int [OF r(3)] by simp
  moreover have "of_int (n * limit) / (of_int limit :: rat) = of_int n" using assms by simp
  ultimately show ?thesis
    using sfl_exact [OF r(1)] sfl_exact [OF r(2)] rnd_int [OF r(1)] assms r(1) by (simp add: trunc_def int32_range_def)
qed

lemma server_cgroup_id_short:
  assumes "server_cgroup_id arg = Inr sid"
  shows "length sid < MAX_CGROUP_ID_LEN"
proof -
  define buf where "buf = strncpy (replicate MAX_CGROUP_ID_LEN NUL) arg MAX_CGROUP_ID_LEN"
  have "NUL \<in> set buf" "sid = cstr buf" "length buf = MAX_CGROUP_ID_LEN"
    using assms by (auto simp: server_cgroup_id_def Let_def buf_def length_strncpy split: if_splits)
  moreover from this(1) obtain xs ys where "buf = xs @ NUL # ys" "NUL \<notin> set xs" by (metis split_list_first)
  ultimately show ?thesis by auto
qed

definition demo_record :: token_attr_t where
  "demo_record = demo_attr\<lparr>params := (params demo_attr)\<lparr>add_per_cycle := 8, mod_times := 99, avg_launchs := [40, 40], launch_idx := 7\<rparr>\<rparr>"

lemma demo_record_ok: "record_ok demo_record" "\<not> changed demo_record"
  by (simp_all add: record_ok_def demo_record_def demo_attr_def zero_attr_def)

lemma delta_change_step:
  assumes "record_ok ta" "\<not> changed ta" "1 \<le> util" "util \<le> 100" "0 \<le> limit" "limit \<le> 100"
    and "1 \<le> add_per_cycle (params ta)" "add_per_cycle (params ta) < 2 ^ 23"
  shows "\<exists>n ch. delta_change ta util limit = Inr (ta\<lparr>params := (params ta)\<lparr>mod_times := mod_times (params ta) + 1, add_per_cycle := n\<rparr>,
      changed := ch\<rparr>) \<and> 1 \<le> n \<and> \<bar>n - add_per_cycle (params ta)\<bar> \<le> 409600 \<and>
    (util < limit \<longrightarrow> add_per_cycle (params ta) \<le> n) \<and>
    (limit \<le> util \<and> 50 \<le> mod_times (params ta) \<longrightarrow> n \<le> add_per_cycle (params ta)) \<and>
    (n \<noteq> add_per_cycle (params ta) \<longrightarrow> ch)"
proof -
  have util0: "0 \<le> util" using assms(3) by simp
  consider "mod_times (params ta) < 50" | "50 \<le> mod_times (params ta)" "(mod_times (params ta) + 1) mod 50 \<noteq> 0"
    | "50 \<le> mod_times (params ta)" "(mod_times (params ta) + 1) mod 50 = 0" by linarith
  then show ?thesis
  proof cases
    case 1
    show ?thesis unfolding delta_change_ramp [OF assms(1,2) util0 assms(4-6) 1 assms(7)]
      by (intro exI conjI, rule refl) (use assms(7) 1 in auto)
  next
    case 2
    show ?thesis unfolding delta_change_idle [OF assms(1,2) util0 assms(4-6) 2]
      by (rule exI [of _ "add_per_cycle (params ta)"], rule exI [of _ "changed ta"]) (use assms(7) in simp)
  next
    case 3
    from delta_change_adjust [OF assms(1-6) 3 assms(7,8)] show ?thesis by blast
  qed
qed

subsection \<open>Properties of the monitor\<close>

text \<open>C20: The controller, for a utilisation between 1 and 100 percent, a limit of at most 100, at
  most \<open>2 ^ 14\<close> launches per cycle and less than \<open>2 ^ 23\<close> tokens per cycle: no conversion or
  overflow is undefined, the tokens per cycle stay positive and move by at most 409600, never
  down while the container uses less than its limit and, after the first fifty ticks, never up
  while it uses the limit or more, and the client's fields are untouched. A change is announced
  whenever there is one.\<close>

theorem controller_step:
  assumes "record_ok ta" "\<not> changed ta" "1 \<le> util" "util \<le> 100" "0 \<le> limit" "limit \<le> 100"
    and "1 \<le> add_per_cycle (params ta)" "add_per_cycle (params ta) < 2 ^ 23"
  shows "\<exists>n ch. delta_change ta util limit = Inr (ta\<lparr>params := (params ta)\<lparr>mod_times := mod_times (params ta) + 1, add_per_cycle := n\<rparr>,
      changed := ch\<rparr>) \<and> 1 \<le> n \<and> \<bar>n - add_per_cycle (params ta)\<bar> \<le> 409600 \<and>
    (util < limit \<longrightarrow> add_per_cycle (params ta) \<le> n) \<and>
    (limit \<le> util \<and> 50 \<le> mod_times (params ta) \<longrightarrow> n \<le> add_per_cycle (params ta)) \<and>
    (n \<noteq> add_per_cycle (params ta) \<longrightarrow> ch)"
  by (rule delta_change_step [OF assms])

theorem controller_step_witness:
  "\<exists>n ch. delta_change demo_record 10 30 = Inr (demo_record\<lparr>params := (params demo_record)\<lparr>mod_times := 100, add_per_cycle := n\<rparr>,
      changed := ch\<rparr>) \<and> 8 \<le> n"
  using controller_step [OF demo_record_ok, of 10 30] by (force simp: demo_record_def demo_attr_def zero_attr_def)

text \<open>C25: A container whose utilisation is reported as 0 at an adjustment makes the controller convert
  a quotient by zero to an integer, which no C implementation has to define.\<close>

theorem controller_zero_util:
  assumes "record_ok ta" "\<not> changed ta" "0 \<le> limit" "limit \<le> 100"
    and "50 \<le> mod_times (params ta)" "(mod_times (params ta) + 1) mod 50 = 0"
  shows "delta_change ta 0 limit = Inl FloatCast"
proof (rule delta_change_tick [OF assms(1,2) _ _ assms(3,4), of 0])
  fix cur l assume a: "0 \<le> cur" "cur \<le> 2 ^ 14"
    "avg_at (params ta) (launch_idx (params ta)) = Inr cur" "avg_at (params ta) (launch_idx (params ta) + 1) = Inr l"
    "int32_range (launch_idx (params ta) + 1)" "int32_range (limit - 0)" "int32_range (mod_times (params ta) + 1)"
  have "quarter_step 0 limit cur = Inl FloatCast" using a(1,2) assms(3,4) by (intro zero_util_step) auto
  with a assms(2,5,6) show ?thesis
    by (simp add: delta_change_def Let_def MODTIMES_PER_SEC_def DEFAULT_WAIT_DURATION_MILLSEC_def)
qed simp_all

theorem controller_zero_util_witness: "delta_change demo_record 0 30 = Inl FloatCast"
  by (rule controller_zero_util [OF demo_record_ok]) (simp_all add: demo_record_def)

text \<open>C22: What the monitor writes when it attaches to the shared record: a fresh record gets the limit,
  one token per cycle and a cycle of 100 ms, and a waiting client is woken; an initialised one
  with the same limit is kept; with another limit only the limit and the tick counter change: the
  tokens per cycle keep their value, because the quotient of the old and the new limit is
  computed after the old one was overwritten. In every case a change is announced. Only this last
  case needs bounds: a positive limit, at least one token per cycle, and a product of the two below
  \<open>2 ^ 24\<close>; a fresh record may hold anything, in particular the zeros of a new object.\<close>

theorem init_attr_cases:
  assumes bounds: "inited ta \<and> core_limit (params ta) \<noteq> limit \<longrightarrow>
    1 \<le> limit \<and> 1 \<le> add_per_cycle (params ta) \<and> add_per_cycle (params ta) * limit < 2 ^ 24"
  shows "init_attr ta limit = Inr (
    if \<not> inited ta then
      ta\<lparr>params := (params ta)\<lparr>core_limit := limit, mod_times := 0, add_per_cycle := 1, avg_launchs := [0, 0], launch_idx := 0\<rparr>,
        wait_time := \<lparr>tv_sec = 0, tv_nsec = 100000000\<rparr>, inited := True, ready := Suc (ready ta), changed := True\<rparr>
    else if core_limit (params ta) = limit then ta\<lparr>changed := True\<rparr>
    else ta\<lparr>params := (params ta)\<lparr>core_limit := limit, mod_times := 0\<rparr>, changed := True\<rparr>)"
proof (cases "inited ta \<and> core_limit (params ta) \<noteq> limit")
  case True
  then have b: "1 \<le> add_per_cycle (params ta)" "1 \<le> limit" "add_per_cycle (params ta) * limit < 2 ^ 24" using bounds by auto
  have "(if 1 < add_per_cycle (params ta) then add_per_cycle (params ta) else 1) = add_per_cycle (params ta)" using b(1) by simp
  then show ?thesis using True rescale_noop [OF b]
    by (simp add: init_attr_def Let_def DEFAULT_WAIT_DURATION_MILLSEC_def)
qed (auto simp: init_attr_def Let_def DEFAULT_WAIT_DURATION_MILLSEC_def)

theorem init_attr_cases_witness:
  "init_attr zero_attr 30 =
     Inr (zero_attr\<lparr>params := (params zero_attr)\<lparr>core_limit := 30, add_per_cycle := 1\<rparr>, wait_time := \<lparr>tv_sec = 0, tv_nsec = 100000000\<rparr>,
       inited := True, ready := 1, changed := True\<rparr>) \<and>
   init_attr (demo_attr\<lparr>params := (params demo_attr)\<lparr>add_per_cycle := 90\<rparr>\<rparr>) 60 =
     Inr (demo_attr\<lparr>params := (params demo_attr)\<lparr>add_per_cycle := 90, core_limit := 60\<rparr>, changed := True\<rparr>)"
  using init_attr_cases [of zero_attr 30] init_attr_cases [of "demo_attr\<lparr>params := (params demo_attr)\<lparr>add_per_cycle := 90\<rparr>\<rparr>" 60]
  by (simp add: demo_attr_def zero_attr_def)

text \<open>C21: The utilisation the controller is given is that of the first sample that is not older than
  the start of the round and whose process is in the container; without one, and when the
  library fails, the round changes nothing.\<close>

theorem gpu_util_first_match:
  assumes "\<forall>x \<in> set pre. ns_timeStamp x < seen_us t \<or> (\<exists>r. sample_id cg (ns_pid x) = Inr r \<and> r \<noteq> Some ident)"
  shows "(nvml (seen_us t) = (0, pre @ s # later) \<and> seen_us t \<le> ns_timeStamp s \<and> sample_id cg (ns_pid s) = Inr (Some ident) \<longrightarrow>
      get_gpu_util nvml cg ident t = Inr (to_int (uint (ns_smUtil s)))) \<and>
    (nvml (seen_us t) = (0, pre) \<or> fst (nvml (seen_us t)) \<noteq> 0 \<longrightarrow>
      get_gpu_util nvml cg ident t = Inr (- 1) \<and> watch_round cg ident limit ta (t, nvml) = Inr ta)"
proof (intro conjI impI; (elim conjE)?)
  assume s: "nvml (seen_us t) = (0, pre @ s # later)" "seen_us t \<le> ns_timeStamp s" "sample_id cg (ns_pid s) = Inr (Some ident)"
  obtain b where b: "length b = MAX_CGROUP_ID_LEN"
    "util_loop cg ident (seen_us t) (pre @ s # later) (replicate MAX_CGROUP_ID_LEN NUL) = util_loop cg ident (seen_us t) (s # later) b"
    using util_loop_skip [OF length_replicate assms] by blast
  obtain b' where "get_cgroup_id (cg (ns_pid s)) b MAX_CGROUP_ID_LEN = Inr (0, b')" "cstr b' = ident"
    using sample_id_buffer [OF b(1) s(3)] by (auto split: if_splits)
  with b s leD [OF s(2)] show "get_gpu_util nvml cg ident t = Inr (to_int (uint (ns_smUtil s)))"
    by (simp add: get_gpu_util_def Let_def)
next
  assume "nvml (seen_us t) = (0, pre) \<or> fst (nvml (seen_us t)) \<noteq> 0"
  moreover have "util_loop cg ident (seen_us t) pre (replicate MAX_CGROUP_ID_LEN NUL) = Inr None"
    using util_loop_skip [OF length_replicate assms, of "[]"] by auto
  ultimately show u: "get_gpu_util nvml cg ident t = Inr (- 1)"
    by (auto simp: get_gpu_util_def Let_def split: prod.splits)
  show "watch_round cg ident limit ta (t, nvml) = Inr ta" using u by (simp add: watch_round_def)
qed

definition demo_sample :: "u32 \<Rightarrow> u32 \<Rightarrow> nvmlProcessUtilizationSample_t" where
  "demo_sample p u = \<lparr>ns_pid = p, ns_timeStamp = 5000000, ns_smUtil = u, ns_memUtil = 0, ns_encUtil = 0, ns_decUtil = 0\<rparr>"

theorem gpu_util_first_match_witness:
  "get_gpu_util (\<lambda>_. (0, [demo_sample 1 80, demo_sample 2 20]))
     (\<lambda>p. if p = 2 then Some [line_buf ''4:devices:/pod/5680af'' []] else None) ''5680af'' \<lparr>tv_sec = 4, tv_nsec = 0\<rparr> = Inr 20"
proof -
  let ?cg = "\<lambda>p::u32. if p = 2 then Some [line_buf ''4:devices:/pod/5680af'' []] else None"
  have "sample_id ?cg 2 = Inr (Some ''5680af'')"
    using get_cgroup_id_line [of "[]" "''4:devices:/pod''" "''5680af''" "[]" MAX_CGROUP_ID_LEN "replicate MAX_CGROUP_ID_LEN NUL" "[]"]
    by (auto simp: sample_id_def MAX_CGROUP_ID_LEN_def)
  moreover have "sample_id ?cg 1 = Inr None" by (simp add: sample_id_def get_cgroup_id_def)
  ultimately show ?thesis
    using gpu_util_first_match [of "[demo_sample 1 80]" "\<lparr>tv_sec = 4, tv_nsec = 0\<rparr>" ?cg "''5680af''"
        "\<lambda>_. (0, [demo_sample 1 80, demo_sample 2 20])" "demo_sample 2 20" "[]" 0 demo_attr]
    by (simp add: demo_sample_def to_int_def seen_us_def)
qed

text \<open>C24: For a container whose identifier has 16 characters or more, as container runtimes generate
  them, no argument makes the monitor map the object the client waits on: longer arguments are
  read beyond their buffer, shorter ones name another object.\<close>

theorem monitor_object_differs:
  assumes "get_cgroup_id file (replicate 4096 NUL) 4096 = Inr (0, buf)" "MAX_CGROUP_ID_LEN \<le> length (cstr buf)"
  shows "server_cgroup_id arg = Inl BadAccess \<or>
    (\<exists>sid. server_cgroup_id arg = Inr sid \<and> token_shm_path m sid \<noteq> token_shm_path m' (cstr buf))"
proof (cases "server_cgroup_id arg")
  case (Inr sid)
  then have "length sid < length (cstr buf)" using server_cgroup_id_short [OF Inr] assms(2) by simp
  then have "sid \<noteq> cstr buf" by blast
  with Inr show ?thesis by (simp add: token_shm_path_inj)
qed (auto simp: server_cgroup_id_def Let_def split: if_splits)

theorem monitor_object_differs_witness:
  "\<exists>buf. get_cgroup_id (Some ([] @ line_buf (''4:devices:/pod'' @ CHR ''/'' # ''5680af4f12fc9a33'') [] # [])) (replicate 4096 NUL) 4096 = Inr (0, buf) \<and>
    token_shm_path 0 ''5680af4f12fc9a3'' \<noteq> token_shm_path 0 (cstr buf)"
proof -
  obtain buf where buf: "get_cgroup_id (Some ([] @ line_buf (''4:devices:/pod'' @ CHR ''/'' # ''5680af4f12fc9a33'') [] # [])) (replicate 4096 NUL) 4096 = Inr (0, buf)"
    "cstr buf = ''5680af4f12fc9a33''"
    using get_cgroup_id_line [of "[]" "''4:devices:/pod''" "''5680af4f12fc9a33''" "[]" 4096 "replicate 4096 NUL" "[]"] by auto
  have "server_cgroup_id ''5680af4f12fc9a3'' = Inr ''5680af4f12fc9a3''"
    by (simp add: server_cgroup_id_def MAX_CGROUP_ID_LEN_def strncpy_def cstr_def)
  then have "token_shm_path 0 ''5680af4f12fc9a3'' \<noteq> token_shm_path 0 (cstr buf)"
    using monitor_object_differs [OF buf(1), of "''5680af4f12fc9a3''" 0 0] buf(2) by (simp add: MAX_CGROUP_ID_LEN_def)
  with buf(1) show ?thesis by blast
qed

end
