(* ===== verification/Control_Loop.thy ===== *)
theory Control_Loop
  imports Monitor
begin

text \<open>
  The closed loop of the core limit: launches take tokens, the thread \<open>token_post\<close> posts them and
  publishes averages, and the monitor reads the averages and sets the tokens per cycle. The
  shared record couples the two processes; their atomic actions interleave in any order.
\<close>

subsection \<open>The steps of the loop\<close>

datatype loop_event = Launch | Refused | Begin_cycle | End_cycle | Round

text \<open>
  At most \<open>2 ^ 14\<close> launches start in one cycle of 100 ms. The monitor looks for the container
  \<open>ident\<close> and keeps \<open>limit\<close>.
\<close>

inductive loop_step ::
  "(u32 \<Rightarrow> string list option) \<Rightarrow> string \<Rightarrow> int \<Rightarrow> hook_state \<times> poster \<Rightarrow> loop_event option \<Rightarrow> hook_state \<times> poster \<Rightarrow> bool"
  for cg ident limit where
  launched: "attr st = Some ta \<Longrightarrow> uint (launch_times (params ta)) < 2 ^ 14 \<Longrightarrow> 0 < tokens st \<Longrightarrow> sem_wait_loop os = Some 0 \<Longrightarrow>
    rate_limit os st = Inr (Some (ret, st')) \<Longrightarrow> loop_step cg ident limit (st, tp) (Some Launch) (st', tp)"
| refused: "attr st = Some ta \<Longrightarrow> uint (launch_times (params ta)) < 2 ^ 14 \<Longrightarrow> sem_wait_loop os = Some r \<Longrightarrow> r \<noteq> 0 \<Longrightarrow>
    rate_limit os st = Inr (Some (ret, st')) \<Longrightarrow> loop_step cg ident limit (st, tp) (Some Refused) (st', tp)"
| began: "token_before (st, tp) = Inr s' \<Longrightarrow> loop_step cg ident limit (st, tp) (Some Begin_cycle) s'"
| ended: "token_after (st, tp) = Inr s' \<Longrightarrow> loop_step cg ident limit (st, tp) (Some End_cycle) s'"
| round: "attr st = Some ta \<Longrightarrow> watch_round cg ident limit ta rd = Inr ta' \<Longrightarrow>
    loop_step cg ident limit (st, tp) (Some Round) (st\<lparr>attr := Some ta'\<rparr>, tp)"

inductive_cases loop_step_event: "loop_step cg ident limit s (Some e) s'"
inductive_cases loop_step_silent: "loop_step cg ident limit s None s'"

abbreviation cnt :: "loop_event list \<Rightarrow> loop_event \<Rightarrow> int" where
  "cnt es e \<equiv> int (count_list es e)"

subsection \<open>The invariant\<close>

definition samples_ok :: "nat \<Rightarrow> int list \<Rightarrow> bool" where
  "samples_ok n xs \<longleftrightarrow> length xs = n \<and> (\<forall>x \<in> set xs. 0 \<le> x \<and> x \<le> 2 ^ 14)"

lemma samples_ok_update: "samples_ok n xs \<Longrightarrow> 0 \<le> v \<Longrightarrow> v \<le> 2 ^ 14 \<Longrightarrow> samples_ok n (xs[i := v])"
  by (auto simp: samples_ok_def dest!: set_update_subset_insert [THEN subsetD])

text \<open>The fields of the shared record, after the events \<open>es\<close>.\<close>

definition shared_ok :: "loop_event list \<Rightarrow> token_attr_t \<Rightarrow> bool" where
  "shared_ok es ta \<longleftrightarrow> samples_ok 2 (avg_launchs (params ta)) \<and>
     launch_idx (params ta) = cnt es End_cycle \<and> 0 \<le> mod_times (params ta) \<and> mod_times (params ta) \<le> cnt es Round \<and>
     uint (launch_times (params ta)) \<le> 2 ^ 14 \<and> 1 \<le> add_per_cycle (params ta)"

definition poster_ok :: "loop_event list \<Rightarrow> poster \<Rightarrow> bool" where
  "poster_ok es tp \<longleftrightarrow> samples_ok LAUNCH_SAMPLES (tp_samples tp) \<and>
     tp_loop tp = cnt es Begin_cycle \<and> (\<forall>n. tp_add tp = Some n \<longrightarrow> 1 \<le> n)"

text \<open>A thread that has not yet read its tokens per cycle finds an announced change.\<close>

definition loop_inv :: "loop_event list \<Rightarrow> hook_state \<times> poster \<Rightarrow> bool" where
  "loop_inv es s \<longleftrightarrow> core_limited (fst s) \<and> poster_ok es (snd s) \<and>
     (\<exists>ta. attr (fst s) = Some ta \<and> shared_ok es ta \<and> (changed ta \<or> tp_add (snd s) \<noteq> None))"

lemma loop_invE:
  assumes "loop_inv es (st, tp)"
  obtains ta where "attr st = Some ta" "core_limited st" "shared_ok es ta" "poster_ok es tp" "changed ta \<or> tp_add tp \<noteq> None"
  using assms by (auto simp: loop_inv_def)

lemma cnt_snoc [simp]: "count_list (es @ [e]) x = count_list es x + (if e = x then 1 else 0)"
  by simp

subsubsection \<open>Launches\<close>

lemma rate_limit_inv:
  assumes "loop_inv es (st, tp)" "attr st = Some ta" "uint (launch_times (params ta)) < 2 ^ 14" "e \<in> {Launch, Refused}"
    and "rate_limit os st = Inr (Some (ret, st'))"
  shows "loop_inv (es @ [e]) (st', tp)"
proof -
  have "uint (launch_times (params ta) + 1) = uint (launch_times (params ta)) + 1"
    using assms(3) by (simp add: uint_word_ariths)
  then show ?thesis using assms
    by (auto simp: loop_inv_def rate_limit_def shared_ok_def poster_ok_def Let_def split: option.splits if_splits)
qed

subsubsection \<open>The monitor\<close>

text \<open>Whatever the arithmetic gives, the controller writes three fields only.\<close>

definition only_adjusted :: "token_attr_t \<Rightarrow> token_attr_t \<Rightarrow> bool" where
  "only_adjusted ta ta' \<longleftrightarrow> avg_launchs (params ta') = avg_launchs (params ta) \<and> launch_idx (params ta') = launch_idx (params ta) \<and>
     launch_times (params ta') = launch_times (params ta) \<and> 1 \<le> add_per_cycle (params ta') \<and> (changed ta \<longrightarrow> changed ta') \<and>
     mod_times (params ta) \<le> mod_times (params ta') \<and> mod_times (params ta') \<le> mod_times (params ta) + 1"

lemma delta_change_adjusts:
  assumes "1 \<le> add_per_cycle (params ta)"
  shows "okR (only_adjusted ta) (delta_change ta util limit)"
  unfolding delta_change_def Let_def
  by (intro okR_rules) (use assms in \<open>simp_all add: only_adjusted_def\<close>)

lemma delta_change_fields:
  assumes "delta_change ta util limit = Inr ta'" "1 \<le> add_per_cycle (params ta)"
  shows "only_adjusted ta ta'"
  using delta_change_adjusts [OF assms(2)] assms(1) by (simp add: okR_def)

lemma watch_round_inv:
  assumes inv: "loop_inv es (st, tp)" and a: "attr st = Some ta" and w: "watch_round cg ident limit ta rd = Inr ta'"
  shows "loop_inv (es @ [Round]) (st\<lparr>attr := Some ta'\<rparr>, tp)"
proof -
  obtain ok: "shared_ok es ta" using inv a by (auto elim: loop_invE)
  consider "ta' = ta" | util where "delta_change ta util limit = Inr ta'"
    using w by (auto simp: watch_round_def bindR_eq_Inr split: if_splits)
  then show ?thesis
  proof cases
    case 1
    then show ?thesis using inv a by (auto simp: loop_inv_def shared_ok_def poster_ok_def)
  next
    case 2
    then show ?thesis using delta_change_fields [OF 2] ok inv a by (auto simp: only_adjusted_def loop_inv_def shared_ok_def poster_ok_def)
  qed
qed

subsubsection \<open>The cycles of the thread\<close>

lemma token_before_eq:
  assumes "loop_inv es (st, tp)" "cnt es Begin_cycle < 2 ^ 31 - 1"
  shows "\<exists>st' tp'. token_before (st, tp) = Inr (st', tp') \<and> loop_inv (es @ [Begin_cycle]) (st', tp') \<and> tokens st' = tokens st \<and>
    (\<exists>n ta. tp_add tp' = Some n \<and> attr st' = Some ta \<and> launch_times (params ta) = 0)"
  using assms
  by (elim loop_invE) (auto simp: token_before_def Let_def loop_inv_def shared_ok_def poster_ok_def int32_range_def)

lemma token_before_inv:
  assumes "loop_inv es (st, tp)" "token_before (st, tp) = Inr s'"
  shows "loop_inv (es @ [Begin_cycle]) s'"
proof -
  have "int32_range (tp_loop tp + 1)" using assms(2) by (auto simp: token_before_def bindR_eq_Inr)
  then have "cnt es Begin_cycle < 2 ^ 31 - 1" using assms(1) by (auto simp: int32_range_def loop_inv_def poster_ok_def)
  from token_before_eq [OF assms(1) this] assms(2) show ?thesis by auto
qed

lemma sum_le_positives:
  assumes "\<forall>x \<in> set xs. 0 \<le> x \<and> x \<le> M"
  shows "sum_list xs \<le> M * positives xs"
  using assms
proof (induction xs)
  case (Cons x xs)
  then show ?case by (cases "0 < x") (auto simp: positives_def algebra_simps)
qed (simp add: positives_def)

lemma average_le:
  assumes "\<forall>x \<in> set xs. 0 \<le> x \<and> x \<le> M" "1 \<le> (M :: int)"
  shows "max 1 (sum_list xs div (positives xs + 1)) \<le> M"
proof -
  have p: "0 \<le> positives xs" by (simp add: positives_def)
  have "M * positives xs \<le> M * (positives xs + 1)" using assms(2) by simp
  then have "sum_list xs \<le> M * (positives xs + 1)" using sum_le_positives [OF assms(1)] by linarith
  then have "sum_list xs div (positives xs + 1) \<le> M * (positives xs + 1) div (positives xs + 1)"
    using p by (intro zdiv_mono1) auto
  then show ?thesis using p assms(2) by simp
qed

text \<open>The end of a cycle: it returns and posts at least one token.\<close>

lemma sem_posts_pos: "0 < n \<Longrightarrow> 0 < (sem_post ^^ n) v"
  by (cases n) (auto simp: sem_post_def SEM_VALUE_MAX_def)

lemma token_after_result:
  assumes inv: "loop_inv es (st, tp)" and n: "tp_add tp = Some n" and bound: "cnt es End_cycle < 2 ^ 31 - 1"
  shows "\<exists>st' tp'. token_after (st, tp) = Inr (st', tp') \<and> loop_inv (es @ [End_cycle]) (st', tp') \<and> 0 < tokens st' \<and>
    (\<exists>ta ta'. attr st = Some ta \<and> attr st' = Some ta' \<and> launch_times (params ta') = launch_times (params ta))"
  using inv
proof (rule loop_invE)
  fix ta assume a: "attr st = Some ta" and core: "core_limited st" and sh: "shared_ok es ta" and po: "poster_ok es tp"
  define xs where "xs = (tp_samples tp)[nat (tp_loop tp mod int LAUNCH_SAMPLES) := uint (launch_times (params ta))]"
  define avg where "avg = max 1 (sum_list xs div (positives xs + 1))"
  define p' where "p' = (params ta)\<lparr>avg_launchs := (avg_launchs (params ta))[nat (launch_idx (params ta) mod 2) := avg],
    launch_idx := launch_idx (params ta) + 1\<rparr>"
  have xs: "samples_ok LAUNCH_SAMPLES xs"
    using sh po unfolding xs_def by (intro samples_ok_update) (auto simp: shared_ok_def poster_ok_def)
  have avg: "0 \<le> avg" "avg \<le> 2 ^ 14" using average_le [of xs "2 ^ 14"] xs by (simp_all add: avg_def samples_ok_def)
  have n1: "1 \<le> n" and tpn: "tp_add tp = Some (int (nat n))" using po n by (auto simp: poster_ok_def)
  have bounds: "0 \<le> launch_idx (params ta)" "launch_idx (params ta) < 2 ^ 31 - 1" "uint (launch_times (params ta)) < 2 ^ 27"
    "length (tp_samples tp) = LAUNCH_SAMPLES" "\<forall>x \<in> set (tp_samples tp). 0 \<le> x \<and> x < 2 ^ 27"
    using sh po bound by (force simp: shared_ok_def poster_ok_def samples_ok_def)+
  let ?st = "st\<lparr>tokens := (sem_post ^^ nat n) (tokens st), attr := Some (ta\<lparr>params := p'\<rparr>)\<rparr>" and ?tp = "tp\<lparr>tp_samples := xs\<rparr>"
  have "token_after (st, tp) = Inr (?st, ?tp)"
    using token_after_eq [OF a tpn bounds] by (simp only: p'_def avg_def xs_def)
  moreover have "shared_ok (es @ [End_cycle]) (ta\<lparr>params := p'\<rparr>)"
    using sh samples_ok_update [OF _ avg, of 2 "avg_launchs (params ta)"] by (simp add: shared_ok_def p'_def)
  moreover have "poster_ok (es @ [End_cycle]) ?tp" using po xs by (simp add: poster_ok_def)
  ultimately show ?thesis using a core n n1 sem_posts_pos [of "nat n" "tokens st"] by (simp add: loop_inv_def p'_def)
qed

lemma token_after_inv:
  assumes inv: "loop_inv es (st, tp)" and r: "token_after (st, tp) = Inr s'" and bound: "cnt es End_cycle < 2 ^ 31 - 1"
  shows "loop_inv (es @ [End_cycle]) s'"
proof -
  obtain n where "tp_add tp = Some n" using r by (auto simp: token_after_def split: option.splits)
  from token_after_result [OF inv this bound] r show ?thesis by auto
qed

subsubsection \<open>Runs\<close>

lemma loop_step_inv:
  assumes "loop_inv es s" "loop_step cg ident limit s (Some e) s'" "cnt es End_cycle < 2 ^ 31 - 1"
  shows "loop_inv (es @ [e]) s'"
  using assms(2)
  by (cases rule: loop_step_event)
    (use assms(1,3) in \<open>auto intro: rate_limit_inv token_before_inv token_after_inv watch_round_inv\<close>)

lemma runs_inv:
  assumes "runs (loop_step cg ident limit) s es s'" "loop_inv [] s" "cnt es End_cycle < 2 ^ 31 - 1"
  shows "loop_inv es s'"
  using assms
proof (induction rule: runs.induct)
  case (run_event s es s' e s'')
  then have "cnt es End_cycle < 2 ^ 31 - 1" by (simp split: if_splits)
  with run_event show ?case by (auto intro: loop_step_inv)
next
  case (run_silent s es s' s'')
  then show ?case by (auto elim: loop_step_silent)
qed simp

subsection \<open>The start\<close>

text \<open>A client whose object the monitor has just initialised for a limit, and whose thread starts.\<close>

definition loop_start :: "int \<Rightarrow> hook_state \<Rightarrow> bool" where
  "loop_start limit st \<longleftrightarrow> core_limited st \<and> map_option Inr (attr st) = Some (init_attr zero_attr limit)"

lemma loop_start_inv: "loop_start limit st \<Longrightarrow> loop_inv [] (st, poster0)"
  by (auto simp: loop_start_def init_attr_def zero_attr_def loop_inv_def shared_ok_def poster_ok_def poster0_def samples_ok_def
      LAUNCH_SAMPLES_def)

lemma shared_ok_record:
  assumes "shared_ok es ta" "cnt es End_cycle < 2 ^ 31 - 1" "cnt es Round < 2 ^ 31 - 1"
  shows "record_ok ta"
  using assms by (auto simp: shared_ok_def record_ok_def samples_ok_def)

lemma watch_round_returns:
  assumes "record_ok ta" "1 \<le> add_per_cycle (params ta)" "add_per_cycle (params ta) < 2 ^ 23" "0 \<le> limit" "limit \<le> 100"
    and util: "get_gpu_util (snd rd) cg ident (fst rd) = Inr util" "util = - 1 \<or> 1 \<le> util \<and> util \<le> 100"
  shows "\<exists>ta'. watch_round cg ident limit ta rd = Inr ta'"
proof (cases "changed ta \<or> util = - 1")
  case True
  then show ?thesis using util by (auto simp: watch_round_def delta_change_def)
next
  case False
  then have "\<exists>ta'. delta_change ta util limit = Inr ta'"
    using delta_change_step [OF assms(1) _ _ _ assms(4,5,2,3), of util] util(2) by blast
  with False util show ?thesis by (auto simp: watch_round_def)
qed

subsection \<open>Properties of the control loop\<close>

text \<open>C19: No action of the loop is ever undefined. After any run of launches, cycles and rounds, in any
  order, within six years of cycles of 100 ms: the shared record is well-formed and its tokens per
  cycle are positive, the next cycle can begin, a begun cycle can end, and every round for a
  limit of at most 100 percent that reads no sample or a utilisation between 1 and 100 returns while the tokens per
  cycle are below \<open>2 ^ 23\<close>. In particular the thread never reads its unset number of tokens when
  it is the only one of its container.\<close>

theorem control_loop_progress:
  assumes start: "loop_start limit st" and run: "runs (loop_step cg ident limit) (st, poster0) es (st', tp')"
    and times: "cnt es Begin_cycle < 2 ^ 31 - 1" "cnt es End_cycle < 2 ^ 31 - 1" "cnt es Round < 2 ^ 31 - 1"
  shows "\<exists>ta. attr st' = Some ta \<and> record_ok ta \<and> 1 \<le> add_per_cycle (params ta) \<and>
    (\<exists>s n. token_before (st', tp') = Inr s \<and> tp_add (snd s) = Some n) \<and>
    (tp_add tp' \<noteq> None \<longrightarrow> (\<exists>s. token_after (st', tp') = Inr s)) \<and>
    (\<forall>rd util. get_gpu_util (snd rd) cg ident (fst rd) = Inr util \<and> (util = - 1 \<or> 1 \<le> util \<and> util \<le> 100) \<and>
       add_per_cycle (params ta) < 2 ^ 23 \<and> 0 \<le> limit \<and> limit \<le> 100 \<longrightarrow> (\<exists>ta'. watch_round cg ident limit ta rd = Inr ta'))"
proof -
  have inv: "loop_inv es (st', tp')" using runs_inv [OF run loop_start_inv [OF start] times(2)] .
  then obtain ta where ta: "attr st' = Some ta" "shared_ok es ta" by (auto elim: loop_invE)
  have rec: "record_ok ta" "1 \<le> add_per_cycle (params ta)"
    using shared_ok_record [OF ta(2) times(2,3)] ta(2) by (simp_all add: shared_ok_def)
  have "\<exists>s n. token_before (st', tp') = Inr s \<and> tp_add (snd s) = Some n" using token_before_eq [OF inv times(1)] by force
  moreover have "\<exists>s. token_after (st', tp') = Inr s" if "tp_add tp' \<noteq> None"
    using that token_after_result [OF inv _ times(2)] by blast
  ultimately show ?thesis using ta(1) rec watch_round_returns [OF rec] by blast
qed

definition demo_looped :: hook_state where
  "demo_looped = (gpu_device 16 32)\<lparr>core_limited := True,
     attr := Some (zero_attr\<lparr>params := (params zero_attr)\<lparr>core_limit := 30, add_per_cycle := 1\<rparr>,
       wait_time := \<lparr>tv_sec = 0, tv_nsec = 100000000\<rparr>, inited := True, ready := 1, changed := True\<rparr>)\<rparr>"

lemma demo_loop_start: "loop_start 30 demo_looped"
  by (simp add: loop_start_def demo_looped_def init_attr_def zero_attr_def DEFAULT_WAIT_DURATION_MILLSEC_def)

theorem control_loop_progress_witness:
  "\<exists>s n. token_before (demo_looped, poster0) = Inr s \<and> tp_add (snd s) = Some n"
  using control_loop_progress [OF demo_loop_start runs.run_start, of "\<lambda>_. None" "''5680''"] by auto

text \<open>C18: No launch starves: after any run of launches, cycles and rounds, however the monitor has
  changed the tokens per cycle, the next full cycle of the posting thread returns and leaves a
  token, and with it a waiting launch returns 0.\<close>

theorem launch_not_starved:
  assumes start: "loop_start limit st" and run: "runs (loop_step cg ident limit) (st, poster0) es (st', tp')"
    and times: "cnt es Begin_cycle < 2 ^ 31 - 1" "cnt es End_cycle < 2 ^ 31 - 1"
  shows "\<exists>s1 st2 tp2 st3. token_before (st', tp') = Inr s1 \<and> token_after s1 = Inr (st2, tp2) \<and> 0 < tokens st2 \<and>
    rate_limit [(0, 0)] st2 = Inr (Some (0, st3)) \<and> loop_step cg ident limit (st2, tp2) (Some Launch) (st3, tp2)"
proof -
  have inv: "loop_inv es (st', tp')" using runs_inv [OF run loop_start_inv [OF start] times(2)] .
  obtain st1 tp1 n ta1 where one: "token_before (st', tp') = Inr (st1, tp1)" "loop_inv (es @ [Begin_cycle]) (st1, tp1)" "tp_add tp1 = Some n"
    "attr st1 = Some ta1" "launch_times (params ta1) = 0"
    using token_before_eq [OF inv times(1)] by blast
  have "cnt (es @ [Begin_cycle]) End_cycle < 2 ^ 31 - 1" using times(2) by simp
  from token_after_result [OF one(2,3) this] one(4,5) obtain st2 tp2 ta2 where
    two: "token_after (st1, tp1) = Inr (st2, tp2)" "loop_inv (es @ [Begin_cycle] @ [End_cycle]) (st2, tp2)" "0 < tokens st2"
    "attr st2 = Some ta2" "launch_times (params ta2) = 0" by auto
  have "core_limited st2" using two(2) by (simp add: loop_inv_def)
  then obtain st3 where three: "rate_limit [(0, 0)] st2 = Inr (Some (0, st3))" using two(4) by (simp add: rate_limit_def Let_def)
  have "loop_step cg ident limit (st2, tp2) (Some Launch) (st3, tp2)"
    by (rule loop_step.launched [OF two(4) _ two(3) _ three]) (use two(5) in simp_all)
  with one(1) two(1,3) three show ?thesis by blast
qed

theorem launch_not_starved_witness:
  "\<exists>s1 st2 tp2. token_before (demo_looped, poster0) = Inr s1 \<and> token_after s1 = Inr (st2, tp2) \<and> 0 < tokens st2"
  using launch_not_starved [OF demo_loop_start runs.run_start, of "\<lambda>_. None" "''5680''"] by auto

end
