(* ===== verification/Spec2Isabelle.thy ===== *)
theory Spec2Isabelle
  imports Logger Clist_Entries Memory_Query Cuda_Hook Control_Loop
begin

text \<open>
  \<^bold>\<open>Verification of nv-resource-controller.\<close>

  The program limits the GPU memory and the GPU time of a container. It has two parts.

  \<^item> A preloaded library (\<^verbatim>\<open>src/entry.c\<close>, \<^verbatim>\<open>src/dlfcn.c\<close>, \<^verbatim>\<open>src/ioctl_hook.c\<close>, \<^verbatim>\<open>src/cuda_hook.c\<close>,
    \<^verbatim>\<open>src/env.c\<close>, \<^verbatim>\<open>src/util.c\<close>, \<^verbatim>\<open>include/\<close>). Its constructor finds the real functions of the C library in
    the loaded modules. It exports \<open>dlsym\<close>, which hands out hooks for CUDA functions, and \<open>ioctl\<close>, which
    looks at the requests to the NVIDIA driver: it rejects allocations beyond the budget, keeps a
    list of the granted blocks and of the device objects, and replaces the memory sizes the driver reports. The
    launch hooks take a token per kernel launch; a thread posts tokens periodically.
  \<^item> A monitor process (\<^verbatim>\<open>src/server_monitor.c\<close>). It reads the utilisation of the container from the
    NVML library and adjusts the tokens per cycle in a shared record.

  \<^bold>\<open>Theories.\<close>

  \<^item> \<open>Prelude\<close>: machine types, the result type \<open>'a res\<close> (\<open>Inl\<close> a fault, \<open>Inr\<close> a value), its rules, checked
    signed arithmetic, word lemmas. The faults are: blocking on a locked mutex, an access to unmapped
    memory, the end of the process, reading an unset variable, an undefined conversion or signed
    overflow, and an argument without the layout its request number announces.
  \<^item> \<open>Clist\<close>, \<open>Clist_Ring\<close>, \<open>Clist_Loops\<close>, \<open>Clist_Entries\<close> (\<^verbatim>\<open>include/list.h\<close>): the intrusive lists over a heap of
    cells. \<open>dlist h head xs\<close> says that the cells form the ring with members \<open>xs\<close>. Every inline function is
    shown to do on the ring what it says on the sequence; the loop macros are instances of one
    \<open>for\<close> statement \<open>c_for\<close>, end on a ring, visit its members, and the safe ones may delete them.
  \<^item> \<open>Hook_Types\<close>, \<open>Logger\<close> (\<^verbatim>\<open>include/hook.h\<close>): the records of the library and the logging macro.
  \<^item> \<open>Ioctl_Hook\<close>, \<open>Ioctl_Control\<close> (\<^verbatim>\<open>src/ioctl_hook.c\<close>, handlers): one definition per handler, over the state
    \<open>hook_state\<close> with the mutex as a flag, the two rings and their entries.
    \<open>Ioctl_Ledger\<close> has the invariant \<open>wf_state\<close>: the two rings are disjoint and hold
    the tracked entries. \<open>Accounting\<close> has the abstract ledger (budget, free bytes, charged bytes,
    blocks, devices) and the relation \<open>ledger_rel\<close>; every handler is shown to return and to implement the ledger operation.
  \<^item> \<open>Cstring\<close>, \<open>Util\<close>, \<open>Cfloat\<close>, \<open>Env\<close>, \<open>Init\<close> (\<^verbatim>\<open>src/util.c\<close>, \<^verbatim>\<open>src/env.c\<close>, \<open>_init_device_prop\<close>): number parsing and
    printing, the helpers, IEEE rounding with the locale \<open>float_format\<close> for both formats, the limits read from the
    environment, and the initialisation, which establishes an empty ledger of the right budget.
  \<^item> \<open>Entry\<close>, \<open>Dlfcn\<close> (\<^verbatim>\<open>src/entry.c\<close>, \<^verbatim>\<open>src/dlfcn.c\<close>): the scan of the loaded modules over an abstract memory
    image, the two exported functions, and sequences of hooked calls (\<open>serial\<close>). These keep the charged blocks
    within the limit as long as no answer of the driver charges more than the check compared; an answer
    beyond the free bytes breaks the limit, since the returned size is charged unchecked.
  \<^item> \<open>Interleave\<close>, \<open>Memory_Query\<close>: the critical sections of the handlers as steps that interleave. The
    counters agree with the tracked blocks under every interleaving; the limit itself is not kept when calls overlap.
    A failed \<open>malloc\<close> leaves the mutex locked for ever. What a process is told about its memory.
  \<^item> \<open>Tokens\<close>, \<open>Cuda_Hook\<close> (\<open>token_post\<close>, \<^verbatim>\<open>src/cuda_hook.c\<close>, \<^verbatim>\<open>include/cuda_entry.h\<close>): the token bucket, with the
    locale \<open>token_bucket\<close> as its contract, the table of hooks and the hooks.
  \<^item> \<open>Monitor\<close>, \<open>Control_Loop\<close> (\<^verbatim>\<open>src/server_monitor.c\<close>): the monitor, and the closed loop of launches, cycles of the
    posting thread and rounds of the monitor. Every action of the loop is defined in every
    reachable state, and no launch starves.

  \<^bold>\<open>Parameters.\<close> Code outside the repository is an argument of the definitions that use it: the driver
  and its request numbers (\<open>nv_abi\<close>, with \<open>abi_ok\<close> that they differ), the dynamic linker, the answers of system calls, the CUDA driver API,
  NVML, and the control-group files. Hypotheses about them state documented behaviour: \<open>malloc\<close> returns a
  block that no live cell overlaps (\<open>fresh_block\<close>), the driver answers with a block of the layout of its request
  (\<open>driver_layout\<close>). Nothing is assumed of the sizes it answers with, except where a theorem says so in its
  own statement.

  \<^bold>\<open>Loops and bounds.\<close> Loops over rings are a \<open>partial_function\<close>, whose results are proved to exist on
  rings; the other loops are structural or have a measure. Waits take the list of the outcomes of their system calls and
  are \<open>None\<close> when it is used up. The endless loops of the thread and the monitor are given by their
  rounds; the sleep of a round of the thread lies between its two parts and is modelled apart. The bounds of the control loop are \<open>2 ^ 14\<close> launches per cycle of 100 ms, fewer than \<open>2 ^ 23\<close> tokens
  per cycle, utilisations between 1 and 100 percent, and \<open>2 ^ 31 - 1\<close> cycles, more than six years.

  \<^bold>\<open>Not modelled.\<close> The text of messages; \<^verbatim>\<open>include/extern.h\<close>, which only declares; branch hints and
  symbol visibility; the static list initialisers, which are unused; the release of operating-system resources (\<open>close\<close>,
  \<open>munmap\<close>, \<open>dlclose\<close>); the two zeros of floating-point formats, which are one value. A handler's critical section is one
  step, so torn updates of the shared budget by two processes, whose mutexes are different, are outside the model.
\<close>

end
